theory Spec2Isabelle
  imports Main "HOL-Library.Word" "HOL-Library.Product_Lexorder" "HOL-Library.List_Lexorder"
    "HOL-Library.Char_ord"
begin

unbundle bit_operations_syntax

section \<open>Outcomes of the C code\<close>

text \<open>
  The C functions report trouble in three ways: a negative return value (kept as the
  returned integer), a failed \<open>assert\<close> (the process aborts), and a read or write
  outside an array or string, whose behaviour C leaves undefined.  The last two are
  values of \<open>error\<close>; a function that can end that way returns \<open>error + 'a\<close>.
\<close>

datatype error = AssertionFailed | OutOfBounds

section \<open>Typed value I/O (vcf.h)\<close>

type_synonym kstring = "8 word list"

definition BCF_BT_NULL :: int where "BCF_BT_NULL = 0"
definition BCF_BT_INT8 :: int where "BCF_BT_INT8 = 1"
definition BCF_BT_INT16 :: int where "BCF_BT_INT16 = 2"
definition BCF_BT_INT32 :: int where "BCF_BT_INT32 = 3"
definition BCF_BT_FLOAT :: int where "BCF_BT_FLOAT = 5"
definition BCF_BT_CHAR :: int where "BCF_BT_CHAR = 7"

definition INT8_MIN :: int where "INT8_MIN = - 128"
definition INT8_MAX :: int where "INT8_MAX = 127"
definition INT16_MIN :: int where "INT16_MIN = - 32768"
definition INT16_MAX :: int where "INT16_MAX = 32767"
definition INT32_MIN :: int where "INT32_MIN = - 2147483648"
definition INT32_MAX :: int where "INT32_MAX = 2147483647"

text \<open>\<open>kputc(c, s)\<close> of kstring.h appends the byte \<open>(char)c\<close>.\<close>

definition kputc :: "int \<Rightarrow> kstring \<Rightarrow> kstring" where
  "kputc c s = s @ [word_of_int c]"

text \<open>\<open>kputsn(p, l, s)\<close> appends \<open>l\<close> bytes; the callers below pass the address of an
  integer, whose bytes are listed least significant first (the format is little-endian).\<close>

definition kputsn :: "8 word list \<Rightarrow> kstring \<Rightarrow> kstring" where
  "kputsn bs s = s @ bs"

definition bytes_of_int16 :: "16 word \<Rightarrow> 8 word list" where
  "bytes_of_int16 z = [ucast z, ucast (drop_bit 8 z)]"

definition bytes_of_int32 :: "32 word \<Rightarrow> 8 word list" where
  "bytes_of_int32 z = [ucast z, ucast (drop_bit 8 z), ucast (drop_bit 16 z), ucast (drop_bit 24 z)]"

definition int16_at :: "8 word list \<Rightarrow> nat \<Rightarrow> 16 word" where
  "int16_at buf p = ucast (buf ! p) OR push_bit 8 (ucast (buf ! (p + 1)))"

definition int32_at :: "8 word list \<Rightarrow> nat \<Rightarrow> 32 word" where
  "int32_at buf p = ucast (buf ! p) OR push_bit 8 (ucast (buf ! (p + 1)))
     OR push_bit 16 (ucast (buf ! (p + 2))) OR push_bit 24 (ucast (buf ! (p + 3)))"

definition bcf_enc_size :: "kstring \<Rightarrow> int \<Rightarrow> int \<Rightarrow> kstring" where
  "bcf_enc_size s size' type =
     (if size' \<ge> 15 then
        (let s1 = kputc (push_bit 4 15 OR type) s in
         if size' \<ge> 128 then
           (if size' \<ge> 32768 then
              kputsn (bytes_of_int32 (word_of_int size')) (kputc (push_bit 4 1 OR BCF_BT_INT32) s1)
            else
              kputsn (bytes_of_int16 (word_of_int size')) (kputc (push_bit 4 1 OR BCF_BT_INT16) s1))
         else kputc size' (kputc (push_bit 4 1 OR BCF_BT_INT8) s1))
      else kputc (push_bit 4 size' OR type) s)"

definition bcf_enc_inttype :: "int \<Rightarrow> int" where
  "bcf_enc_inttype x =
     (if x \<le> INT8_MAX \<and> x > INT8_MIN then BCF_BT_INT8
      else if x \<le> INT16_MAX \<and> x > INT16_MIN then BCF_BT_INT16
      else BCF_BT_INT32)"

text \<open>The argument \<open>x\<close> is an \<open>int32_t\<close>; the comparisons read it signed.\<close>

definition bcf_enc_int1 :: "kstring \<Rightarrow> 32 word \<Rightarrow> kstring" where
  "bcf_enc_int1 s x =
     (if sint x = INT32_MIN then
        kputc INT8_MIN (bcf_enc_size s 1 BCF_BT_INT8)
      else if sint x \<le> INT8_MAX \<and> sint x > INT8_MIN then
        kputc (sint x) (bcf_enc_size s 1 BCF_BT_INT8)
      else if sint x \<le> INT16_MAX \<and> sint x > INT16_MIN then
        (let z = (ucast x :: 16 word) in
         kputsn (bytes_of_int16 z) (bcf_enc_size s 1 BCF_BT_INT16))
      else
        (let z = x in
         kputsn (bytes_of_int32 z) (bcf_enc_size s 1 BCF_BT_INT32)))"

text \<open>
  The decoders take the buffer and the offset \<open>p\<close> of the cursor, and return the value with
  the new cursor \<open>q\<close>.  Reading past the end of the buffer is \<open>OutOfBounds\<close>.
\<close>

definition bcf_dec_int1 :: "8 word list \<Rightarrow> nat \<Rightarrow> int \<Rightarrow> error + (32 word \<times> nat)" where
  "bcf_dec_int1 buf p type =
     (if type = BCF_BT_INT8 then
        (if p + 1 \<le> length buf then Inr (scast (buf ! p), p + 1) else Inl OutOfBounds)
      else if type = BCF_BT_INT16 then
        (if p + 2 \<le> length buf then Inr (scast (int16_at buf p), p + 2) else Inl OutOfBounds)
      else
        (if p + 4 \<le> length buf then Inr (int32_at buf p, p + 4) else Inl OutOfBounds))"

definition bcf_dec_typed_int1 :: "8 word list \<Rightarrow> nat \<Rightarrow> error + (32 word \<times> nat)" where
  "bcf_dec_typed_int1 buf p =
     (if p < length buf then bcf_dec_int1 buf (p + 1) (uint (buf ! p AND 0xf))
      else Inl OutOfBounds)"

definition bcf_dec_size :: "8 word list \<Rightarrow> nat \<Rightarrow> error + (32 word \<times> nat \<times> int)" where
  "bcf_dec_size buf p =
     (if p < length buf then
        (let type = uint (buf ! p AND 0xf) in
         if drop_bit 4 (buf ! p) \<noteq> 15 then Inr (ucast (drop_bit 4 (buf ! p)), p + 1, type)
         else (case bcf_dec_typed_int1 buf (p + 1) of
                 Inl e \<Rightarrow> Inl e
               | Inr (v, q) \<Rightarrow> Inr (v, q, type)))
      else Inl OutOfBounds)"

section \<open>Records and headers (vcf.h)\<close>

definition BCF_DT_ID :: int where "BCF_DT_ID = 0"
definition BCF_DT_CTG :: int where "BCF_DT_CTG = 1"
definition BCF_DT_SAMPLE :: int where "BCF_DT_SAMPLE = 2"

text \<open>
  \<open>bcf_hdr_t\<close>: the header text, the contig dictionary \<open>id[BCF_DT_CTG]\<close> (key and
  length) and the dictionary lookup.  \<open>bcf_id2int\<close> and \<open>bcf_hdr_parse\<close> are declared in
  vcf.h and implemented elsewhere; the lookup is a field of the header, and the parser
  is a collaborator (see \<open>collab\<close> below).
\<close>

record bcf_hdr =
  hdr_text :: string
  hdr_ctg :: "(string \<times> int) list"
  hdr_dict :: "int \<Rightarrow> string \<Rightarrow> int"

definition bcf_id2int :: "bcf_hdr \<Rightarrow> int \<Rightarrow> string \<Rightarrow> int" where
  "bcf_id2int h which id' = hdr_dict h which id'"

text \<open>
  \<open>bcf1_t\<close>, in its unpacked view: \<open>b_allele\<close> is \<open>d.allele\<close> (REF first, so
  \<open>n_allele\<close> is its length); \<open>b_info\<close> is \<open>d.info\<close>, each entry its key and its value,
  a vector of integers or of characters; \<open>b_fmt\<close> is \<open>d.fmt\<close>, each column its key,
  the number \<open>n\<close> of values per sample and the bytes \<open>p\<close>; \<open>b_indiv\<close> is the encoded
  FORMAT block.
\<close>

datatype info_val = Ints "int list" | Chars string

record bcf_fmt =
  fmt_id :: int
  fmt_n :: int
  fmt_p :: "8 word list"

record bcf1 =
  b_rid :: int
  b_pos :: int
  b_rlen :: int
  b_n_fmt :: int
  b_n_sample :: int
  b_allele :: "string list"
  b_info :: "(int \<times> info_val) list"
  b_fmt :: "bcf_fmt list"
  b_indiv :: kstring

definition n_allele :: "bcf1 \<Rightarrow> int" where
  "n_allele b = int (length (b_allele b))"

text \<open>\<open>p->v1.i\<close> of an INFO entry: set by \<open>bcf_unpack\<close> when the entry holds one value.\<close>

definition info_v1 :: "info_val \<Rightarrow> int" where
  "info_v1 v = (case v of Ints [i] \<Rightarrow> i | _ \<Rightarrow> 0)"

text \<open>
  Modelled from the spec: \<open>bcfcmp\<close>, \<open>bcfcpy\<close>, \<open>bcfcpy_min\<close> and
  \<open>bcf_append_info_ints\<close> are declared in vcf.h; their bodies are not in the repository's
  files.  The spec orders sites by \<open>(rid, pos, rlen, REF, ALT[0])\<close>, lexicographically;
  \<open>bcfcpy_min\<close> copies the site with its allele list shrunk to \<open>(REF, ALT[0])\<close> plus the
  extra symbolic ALT when one is given, and returns the length of REF;
  \<open>bcf_append_info_ints\<close> appends one INFO entry with \<open>n\<close> integers.
\<close>

definition site_key :: "bcf1 \<Rightarrow> int \<times> int \<times> int \<times> string \<times> string" where
  "site_key b = (b_rid b, b_pos b, b_rlen b,
     (case b_allele b of [] \<Rightarrow> [] | r # _ \<Rightarrow> r),
     (case b_allele b of _ # a # _ \<Rightarrow> a | _ \<Rightarrow> []))"

definition bcfcmp :: "bcf1 \<Rightarrow> bcf1 \<Rightarrow> int" where
  "bcfcmp a b = (if site_key a < site_key b then - 1 else if site_key a = site_key b then 0 else 1)"

definition bcfcpy :: "bcf1 \<Rightarrow> bcf1" where
  "bcfcpy src = src"

definition bcfcpy_min :: "bcf1 \<Rightarrow> string option \<Rightarrow> int \<times> bcf1" where
  "bcfcpy_min b0 alt2 =
     (let l_ref = (case b_allele b0 of [] \<Rightarrow> 0 | r # _ \<Rightarrow> int (length r)) in
      (l_ref, b0\<lparr>b_allele := take 2 (b_allele b0) @ (case alt2 of None \<Rightarrow> [] | Some m \<Rightarrow> [m]),
                 b_n_fmt := 0, b_n_sample := 0, b_fmt := [], b_indiv := []\<rparr>))"

definition bcf_append_info_ints :: "bcf_hdr \<Rightarrow> bcf1 \<Rightarrow> string \<Rightarrow> int \<Rightarrow> int list \<Rightarrow> bcf1" where
  "bcf_append_info_ints h b key n val =
     b\<lparr>b_info := b_info b @ [(bcf_id2int h BCF_DT_ID key, Ints (take (nat n) val))]\<rparr>"

section \<open>Single BGT reading (bgt.c)\<close>

text \<open>
  The collaborators that bgt.c calls and the repository's files do not hold: the file
  system test of \<open>fopen\<close>, \<open>hts_readlines\<close>, the expression compiler \<open>ke_parse\<close> (its
  result and its error code), the row test \<open>fmf_test\<close> of the sample table, and
  \<open>bcf_hdr_parse\<close>.  The type \<open>'ke\<close> is the compiled expression.
\<close>

record 'ke collab =
  fopen_ok :: "string \<Rightarrow> bool"
  hts_readlines :: "string \<Rightarrow> string list"
  ke_parse :: "string \<Rightarrow> 'ke option \<times> int"
  fmf_test :: "string list \<Rightarrow> nat \<Rightarrow> 'ke \<Rightarrow> bool"
  bcf_hdr_parse :: "string \<Rightarrow> bcf_hdr"

text \<open>
  \<open>bgt_file_t\<close>: the sample table \<open>f\<close> (one row per sample, given by its name, so
  \<open>f->n_rows\<close> is the length) and the header \<open>h0\<close>.
\<close>

record bgt_file =
  f_rows :: "string list"
  f_h0 :: bcf_hdr

text \<open>
  Modelled from the spec: the genotype matrix reader (\<open>pbf_seek\<close>, \<open>pbf_read\<close>,
  \<open>pbf_subset\<close>) is not in the repository's files.  Per the spec it is a bit-packed
  two-plane matrix; \<open>read\<close> returns the two planes of the current row, restricted to the
  active subset of haplotype indices, in subset order, one byte (0 or 1) per haplotype.
\<close>

record pbf =
  pb_plane0 :: "int \<Rightarrow> int \<Rightarrow> bool"
  pb_plane1 :: "int \<Rightarrow> int \<Rightarrow> bool"
  pb_sub :: "int list"
  pb_row :: int

type_synonym planes = "8 word list \<times> 8 word list"

definition pbf_subset :: "pbf \<Rightarrow> int list \<Rightarrow> pbf" where
  "pbf_subset pb t = pb\<lparr>pb_sub := t\<rparr>"

definition pbf_seek :: "pbf \<Rightarrow> int \<Rightarrow> pbf" where
  "pbf_seek pb row = pb\<lparr>pb_row := row\<rparr>"

definition pbf_read :: "pbf \<Rightarrow> planes \<times> pbf" where
  "pbf_read pb =
     ((map (\<lambda>t. of_bool (pb_plane0 pb (pb_row pb) t)) (pb_sub pb),
       map (\<lambda>t. of_bool (pb_plane1 pb (pb_row pb) t)) (pb_sub pb)),
      pb\<lparr>pb_row := pb_row pb + 1\<rparr>)"

text \<open>
  \<open>bgt_t\<close>.  \<open>bgt_stream\<close> stands for the site stream (\<open>bcf\<close> and \<open>itr\<close>): the records
  that \<open>bcf_itr_next\<close> or \<open>bcf_read1\<close> yield from here on, end of file after the last.
  \<open>bgt_bed\<close> is the interval collaborator, as its answer \<open>bed_overlap\<close> for a contig
  name, a start and an end.
\<close>

record bgt =
  bgt_f :: bgt_file
  bgt_stream :: "bcf1 list"
  bgt_pb :: pbf
  bgt_b0 :: "bcf1 option"
  bgt_flag :: "8 word list"
  bgt_n_groups :: int
  bgt_group :: "8 word list"
  bgt_out :: "int list"
  bgt_n_out :: int
  bgt_h_out :: "bcf_hdr option"
  bgt_bed :: "(string \<Rightarrow> int \<Rightarrow> int \<Rightarrow> bool) option"
  bgt_bed_excl :: int

text \<open>\<open>bgt_rec_t\<close>: the buffered site and its two planes (null pointers are \<open>None\<close>).\<close>

record bgt_rec =
  r_b0 :: "bcf1 option"
  r_a :: "planes option"

text \<open>
  Modelled from the spec: \<open>BGT_SET_ALL_SAMPLES\<close> and \<open>BGT_MAX_GROUPS\<close> are macros of
  bgt.h, which is not in the repository's files.  The first is the "all samples"
  sentinel passed in place of a sample count, distinct from every count \<open>n \<ge> 0\<close>; the
  second is the cap of 8 groups.  \<open>BGT_F_SET_AC\<close> and \<open>BGT_F_NO_GT\<close> are the two mode
  bits.
\<close>

definition BGT_SET_ALL_SAMPLES :: int where "BGT_SET_ALL_SAMPLES = - 1"
definition BGT_MAX_GROUPS :: int where "BGT_MAX_GROUPS = 8"
definition BGT_F_SET_AC :: int where "BGT_F_SET_AC = 1"
definition BGT_F_NO_GT :: int where "BGT_F_NO_GT = 2"

definition bgt_reader_init :: "bgt_file \<Rightarrow> bcf1 list \<Rightarrow> pbf \<Rightarrow> bgt" where
  "bgt_reader_init bf records pb =
     \<lparr>bgt_f = bf, bgt_stream = records, bgt_pb = pb, bgt_b0 = None,
      bgt_flag = replicate (length (f_rows bf)) 0, bgt_n_groups = 0, bgt_group = [],
      bgt_out = [], bgt_n_out = 0, bgt_h_out = None, bgt_bed = None, bgt_bed_excl = 0\<rparr>"

text \<open>
  \<open>1<<bgt->n_groups\<close> is an \<open>int\<close>; or-ing it into a \<open>uint8_t\<close> keeps its low byte.
  Nothing in bgt.c bounds \<open>n_groups\<close>, and C leaves the shift undefined from
  \<open>n_groups = 31\<close> on; the model follows the shift instruction of the compiled code,
  which takes the count modulo 32 (so that 32 groups give bit 0 again).
\<close>

definition group_bit :: "int \<Rightarrow> 8 word" where
  "group_bit n = ucast (push_bit (nat (n mod 32)) (1 :: 32 word))"

text \<open>The compiled expression after the error check of lines 94-100.\<close>

definition parse_expr :: "'ke collab \<Rightarrow> string option \<Rightarrow> 'ke option" where
  "parse_expr env expr =
     (case expr of
        None \<Rightarrow> None
      | Some e \<Rightarrow> (case ke_parse env e of (ke, err) \<Rightarrow> if err \<noteq> 0 \<and> ke \<noteq> None then None else ke))"

definition sample_matches :: "'ke collab \<Rightarrow> bgt \<Rightarrow> int \<Rightarrow> string list \<Rightarrow> 'ke option \<Rightarrow> nat \<Rightarrow> bool" where
  "sample_matches env bgt n samples ke i =
     (f_rows (bgt_f bgt) ! i \<in> set (take (nat n) samples)
      \<or> (case ke of None \<Rightarrow> False | Some k \<Rightarrow> fmf_test env (f_rows (bgt_f bgt)) i k))"

definition bgt_add_group_core :: "'ke collab \<Rightarrow> bgt \<Rightarrow> int \<Rightarrow> string list \<Rightarrow> string option \<Rightarrow> bgt" where
  "bgt_add_group_core env bgt n samples expr =
     (let n_rows = length (f_rows (bgt_f bgt));
          bgt1 =
            (if n = BGT_SET_ALL_SAMPLES then
               bgt\<lparr>bgt_flag := map (\<lambda>i. bgt_flag bgt ! i OR group_bit (bgt_n_groups bgt)) [0..<n_rows]\<rparr>
             else if n > 0 \<or> expr \<noteq> None then
               (let ke = parse_expr env expr in
                bgt\<lparr>bgt_flag :=
                  map (\<lambda>i. if sample_matches env bgt n samples ke i
                           then bgt_flag bgt ! i OR group_bit (bgt_n_groups bgt)
                           else bgt_flag bgt ! i) [0..<n_rows]\<rparr>)
             else bgt)
      in bgt1\<lparr>bgt_n_groups := bgt_n_groups bgt + 1\<rparr>)"

text \<open>\<open>*expr\<close>: the first character of a C string, the terminator when it is empty.\<close>

definition first_char :: "string \<Rightarrow> char" where
  "first_char s = (case s of [] \<Rightarrow> CHR 0x00 | c # _ \<Rightarrow> c)"

definition bgt_add_group :: "'ke collab \<Rightarrow> bgt \<Rightarrow> string \<Rightarrow> bgt" where
  "bgt_add_group env bgt expr =
     (let is_file = fopen_ok env expr in
      if first_char expr = CHR '':'' \<or> (first_char expr \<noteq> CHR ''?'' \<and> is_file) then
        (let samples = hts_readlines env expr in
         bgt_add_group_core env bgt (int (length samples)) samples None)
      else bgt_add_group_core env bgt 0 [] (Some expr))"

definition bgt_prepare :: "'ke collab \<Rightarrow> bgt \<Rightarrow> bgt" where
  "bgt_prepare env bgt0 =
     (let bgt = (if bgt_n_groups bgt0 = 0 then bgt_add_group_core env bgt0 BGT_SET_ALL_SAMPLES [] None
                 else bgt0);
          rows = f_rows (bgt_f bgt);
          out = filter (\<lambda>i. bgt_flag bgt ! i \<noteq> 0) [0..<length rows];
          n_out = int (length out);
          str = hdr_text (f_h0 (bgt_f bgt))
                @ (if n_out > 0 then [CHR 0x09] @ ''FORMAT'' @ concat (map (\<lambda>i. CHR 0x09 # rows ! i) out)
                   else []);
          t = concat (map (\<lambda>i. [push_bit 1 (int i) OR 0, push_bit 1 (int i) OR 1]) out)
      in bgt\<lparr>bgt_out := map int out, bgt_n_out := n_out,
              bgt_group := map (\<lambda>i. bgt_flag bgt ! i) out,
              bgt_h_out := Some ((bcf_hdr_parse env str)\<lparr>hdr_text := str\<rparr>),
              bgt_pb := pbf_subset (bgt_pb bgt) t\<rparr>)"

definition bgt_bits2gt :: "int list" where
  "bgt_bits2gt = [push_bit 1 (0 + 1), push_bit 1 (1 + 1), push_bit 1 0, push_bit 1 (2 + 1)]"

text \<open>
  \<open>bgt_read_core0\<close>: the next record of the stream and its row, read from the INFO
  field \<open>_row\<close>; a negative row at the end of the stream.  The three \<open>assert\<close>s abort.
\<close>

definition bgt_read_core0 :: "bgt \<Rightarrow> error + (int \<times> bgt)" where
  "bgt_read_core0 bgt =
     (case bgt_stream bgt of
        [] \<Rightarrow> Inr (- 1, bgt)
      | b # rest \<Rightarrow>
          (let bgt' = bgt\<lparr>bgt_stream := rest, bgt_b0 := Some b\<rparr>;
               id' = bcf_id2int (f_h0 (bgt_f bgt)) BCF_DT_ID ''_row'';
               row = fold (\<lambda>p row. if fst p = id' then info_v1 (snd p) else row) (b_info b) (- 1)
           in if b_n_sample b \<noteq> 0 then Inl AssertionFailed
              else if \<not> id' > 0 then Inl AssertionFailed
              else if \<not> row \<ge> 0 then Inl AssertionFailed
              else Inr (row, bgt')))"

text \<open>The two plane bytes of haplotype \<open>i\<close> as the two-bit code \<open>a[1][i]<<1 | a[0][i]\<close>.\<close>

definition hap_code :: "planes \<Rightarrow> nat \<Rightarrow> int" where
  "hap_code a i = push_bit 1 (uint (snd a ! i)) OR uint (fst a ! i)"

text \<open>
  The loops over the planes index them up to \<open>n\<close> and index a table of 4 entries with the
  code; \<open>planes_ok a n\<close> says that all these reads are in range.
\<close>

definition planes_ok :: "planes \<Rightarrow> nat \<Rightarrow> bool" where
  "planes_ok a n = (n \<le> length (fst a) \<and> n \<le> length (snd a)
     \<and> list_all (\<lambda>i. hap_code a i < 4) [0..<n])"

text \<open>
  \<open>bgt_gen_gt\<close>: \<open>n_fmt\<close> is an 8-bit and \<open>n_sample\<close> a 24-bit field of \<open>bcf1_t\<close>.  The
  byte 0 stored behind the last genotype is not counted in \<open>indiv.l\<close>.
\<close>

definition bgt_gen_gt :: "bcf_hdr \<Rightarrow> bcf1 \<Rightarrow> int \<Rightarrow> planes \<Rightarrow> error + bcf1" where
  "bgt_gen_gt h b m a =
     (let id' = bcf_id2int h BCF_DT_ID ''GT'';
          b1 = b\<lparr>b_n_fmt := 1, b_n_sample := m mod 2 ^ 24\<rparr>;
          hd' = bcf_enc_size (bcf_enc_int1 [] (word_of_int id')) 2 BCF_BT_INT8;
          n = nat (push_bit 1 (b_n_sample b1))
      in if planes_ok a n
         then Inr (b1\<lparr>b_indiv := hd' @ map (\<lambda>i. word_of_int (bgt_bits2gt ! nat (hap_code a i))) [0..<n]\<rparr>)
         else Inl OutOfBounds)"

text \<open>
  The arguments of \<open>bed_overlap\<close> in line 224: the contig name
  \<open>bgt->h_out->id[BCF_DT_CTG][bgt->b0->rid].key\<close>, \<open>pos\<close> and \<open>pos + rlen\<close>, a sum of two
  \<open>int32_t\<close>.  The read of the name is out of bounds while \<open>h_out\<close> is null, that is
  before \<open>bgt_prepare\<close>, and for a \<open>rid\<close> that the contig dictionary does not hold.
\<close>

definition bed_args :: "bgt \<Rightarrow> error + (string \<times> int \<times> int)" where
  "bed_args bgt =
     (case (bgt_h_out bgt, bgt_b0 bgt) of
        (Some h, Some b) \<Rightarrow>
          if 0 \<le> b_rid b \<and> b_rid b < int (length (hdr_ctg h))
          then Inr (fst (hdr_ctg h ! nat (b_rid b)), b_pos b,
                    sint (word_of_int (b_pos b + b_rlen b) :: 32 word))
          else Inl OutOfBounds
      | _ \<Rightarrow> Inl OutOfBounds)"

function bgt_read_core :: "bgt \<Rightarrow> error + (int \<times> bgt)" where
  "bgt_read_core bgt =
     (case bgt_bed bgt of
        Some bed \<Rightarrow>
          (case bgt_read_core0 bgt of
             Inl e \<Rightarrow> Inl e
           | Inr (ret, bgt') \<Rightarrow>
               if ret \<ge> 0 then
                 (case bed_args bgt' of
                    Inl e \<Rightarrow> Inl e
                  | Inr (key, beg, end') \<Rightarrow>
                      (let r = bed key beg end' in
                       if bgt_bed_excl bgt' \<noteq> 0 \<and> r then bgt_read_core bgt'
                       else if \<not> bgt_bed_excl bgt' \<noteq> 0 \<and> \<not> r then bgt_read_core bgt'
                       else Inr (ret, bgt')))
               else Inr (ret, bgt'))
      | None \<Rightarrow> bgt_read_core0 bgt)"
  by pat_completeness auto
termination
  by (relation "measure (\<lambda>bgt. length (bgt_stream bgt))")
    (auto simp add: bgt_read_core0_def Let_def split: list.splits if_splits)

definition bgt_read_rec :: "bgt \<Rightarrow> error + (int \<times> bgt \<times> bgt_rec)" where
  "bgt_read_rec bgt =
     (let r = \<lparr>r_b0 = None, r_a = None\<rparr> in
      if bgt_n_out bgt = 0 then Inr (- 1, bgt, r)
      else (case bgt_read_core bgt of
              Inl e \<Rightarrow> Inl e
            | Inr (row, bgt1) \<Rightarrow>
                if row < 0 then Inr (row, bgt1, r)
                else (case pbf_read (pbf_seek (bgt_pb bgt1) row) of
                        (a, pb) \<Rightarrow> Inr (row, bgt1\<lparr>bgt_pb := pb\<rparr>, \<lparr>r_b0 = bgt_b0 bgt1, r_a = Some a\<rparr>))))"

text \<open>
  \<open>bgt_read\<close> returns the result code, the reader and the caller's record \<open>b\<close>.
\<close>

definition bgt_read :: "'ke collab \<Rightarrow> bgt \<Rightarrow> bcf1 \<Rightarrow> error + (int \<times> bgt \<times> bcf1)" where
  "bgt_read env bgt0 b =
     (let bgt = (if bgt_h_out bgt0 = None then bgt_prepare env bgt0 else bgt0) in
      case bgt_read_rec bgt of
        Inl e \<Rightarrow> Inl e
      | Inr (ret, bgt1, r) \<Rightarrow>
          if ret < 0 then Inr (ret, bgt1, b)
          else (case (bgt_h_out bgt1, r_b0 r, r_a r) of
                  (Some h, Some rb, Some a) \<Rightarrow>
                    (case bgt_gen_gt h (bcfcpy rb) (bgt_n_out bgt1) a of
                       Inl e \<Rightarrow> Inl e
                     | Inr b' \<Rightarrow> Inr (ret, bgt1, b'))
                | _ \<Rightarrow> Inl OutOfBounds))"

definition bgt_set_bed :: "bgt \<Rightarrow> (string \<Rightarrow> int \<Rightarrow> int \<Rightarrow> bool) option \<Rightarrow> int \<Rightarrow> bgt" where
  "bgt_set_bed bgt bed excl = bgt\<lparr>bgt_bed := bed, bgt_bed_excl := excl\<rparr>"

section \<open>Multi BGT reading (bgt.c)\<close>

text \<open>Decimal printing, as \<open>%d\<close> of \<open>ksprintf\<close> and \<open>kputw\<close> do it.\<close>

definition digit_char :: "nat \<Rightarrow> char" where
  "digit_char d = char_of (48 + d)"

fun dec_nat :: "nat \<Rightarrow> string" where
  "dec_nat n = (if n < 10 then [digit_char n] else dec_nat (n div 10) @ [digit_char (n mod 10)])"

declare dec_nat.simps [simp del]

definition dec_int :: "int \<Rightarrow> string" where
  "dec_int i = (if i < 0 then CHR ''-'' # dec_nat (nat (- i)) else dec_nat (nat i))"

text \<open>
  \<open>bgtm_t\<close>.  \<open>bm_child\<close> holds \<open>bm->bgt[i]\<close> together with its slot \<open>bm->r[i]\<close>, so
  \<open>n_bgt\<close> is its length.  The filter callback gets the header, the record, \<open>an\<close>, \<open>ac[0]\<close>,
  \<open>n_groups\<close> and the arrays \<open>gan\<close> and \<open>gac1\<close>.
\<close>

type_synonym bgt_filter_f = "bcf_hdr \<Rightarrow> bcf1 \<Rightarrow> int \<Rightarrow> int \<Rightarrow> int \<Rightarrow> int list \<Rightarrow> int list \<Rightarrow> int"

record bgtm =
  bm_child :: "(bgt \<times> bgt_rec) list"
  bm_n_out :: int
  bm_n_groups :: int
  bm_group :: "8 word list"
  bm_sample_idx :: "64 word list"
  bm_h_out :: "bcf_hdr option"
  bm_a :: planes
  bm_flag :: int
  bm_filter_func :: "bgt_filter_f option"

definition bgtm_reader_init :: "(bgt_file \<times> bcf1 list \<times> pbf) list \<Rightarrow> bgtm" where
  "bgtm_reader_init bf =
     \<lparr>bm_child = map (\<lambda>(f, records, pb). (bgt_reader_init f records pb, \<lparr>r_b0 = None, r_a = None\<rparr>)) bf,
      bm_n_out = 0, bm_n_groups = 0, bm_group = [], bm_sample_idx = [], bm_h_out = None,
      bm_a = ([], []), bm_flag = 0, bm_filter_func = None\<rparr>"

definition bgtm_add_group_core :: "'ke collab \<Rightarrow> bgtm \<Rightarrow> int \<Rightarrow> string list \<Rightarrow> string option \<Rightarrow> bgtm" where
  "bgtm_add_group_core env bm n samples expr =
     bm\<lparr>bm_child := map (\<lambda>(g, r). (bgt_add_group_core env g n samples expr, r)) (bm_child bm),
        bm_n_groups := bm_n_groups bm + 1\<rparr>"

definition bgtm_add_group :: "'ke collab \<Rightarrow> bgtm \<Rightarrow> string \<Rightarrow> bgtm" where
  "bgtm_add_group env bm expr =
     bm\<lparr>bm_child := map (\<lambda>(g, r). (bgt_add_group env g expr, r)) (bm_child bm),
        bm_n_groups := bm_n_groups bm + 1\<rparr>"

definition group_info_lines :: "nat \<Rightarrow> string" where
  "group_info_lines i =
     ''##INFO=<ID=AC'' @ dec_nat i @ '',Number=A,Type=String,Description='' @ [CHR 0x22] @ ''Count of alternate alleles for sample group ''
       @ dec_nat i @ [CHR 0x22] @ ''>'' @ [CHR 0x0A]
     @ ''##INFO=<ID=AN'' @ dec_nat i @ '',Number=A,Type=String,Description='' @ [CHR 0x22] @ ''Count of total alleles for sample group ''
       @ dec_nat i @ [CHR 0x22] @ ''>'' @ [CHR 0x0A]"

definition bgtm_hdr_text :: "bgtm \<Rightarrow> bcf_hdr \<Rightarrow> string" where
  "bgtm_hdr_text bm h0 =
     ''##fileformat=VCFv4.1'' @ [CHR 0x0A]
     @ ''##INFO=<ID=AC,Number=A,Type=String,Description='' @ [CHR 0x22] @ ''Count of alternate alleles'' @ [CHR 0x22] @ ''>'' @ [CHR 0x0A]
     @ ''##INFO=<ID=AN,Number=A,Type=String,Description='' @ [CHR 0x22] @ ''Count of total alleles'' @ [CHR 0x22] @ ''>'' @ [CHR 0x0A]
     @ concat (map group_info_lines [1..<nat BGT_MAX_GROUPS + 1])
     @ ''##INFO=<ID=END,Number=1,Type=Integer,Description='' @ [CHR 0x22] @ ''Ending position'' @ [CHR 0x22] @ ''>'' @ [CHR 0x0A]
     @ ''##FORMAT=<ID=GT,Number=1,Type=String,Description='' @ [CHR 0x22] @ ''Genotype'' @ [CHR 0x22] @ ''>'' @ [CHR 0x0A]
     @ ''##ALT=<ID=M,Description='' @ [CHR 0x22] @ ''Multi-allele'' @ [CHR 0x22] @ ''>'' @ [CHR 0x0A]
     @ ''##ALT=<ID=DEL,Description='' @ [CHR 0x22] @ ''Deletion'' @ [CHR 0x22] @ ''>'' @ [CHR 0x0A]
     @ ''##ALT=<ID=DUP,Description='' @ [CHR 0x22] @ ''Duplication'' @ [CHR 0x22] @ ''>'' @ [CHR 0x0A]
     @ ''##ALT=<ID=INS,Description='' @ [CHR 0x22] @ ''Insertion'' @ [CHR 0x22] @ ''>'' @ [CHR 0x0A]
     @ ''##ALT=<ID=INV,Description='' @ [CHR 0x22] @ ''Inversion'' @ [CHR 0x22] @ ''>'' @ [CHR 0x0A]
     @ ''##ALT=<ID=DUP:TANDEM,Description='' @ [CHR 0x22] @ ''Tandem duplication'' @ [CHR 0x22] @ ''>'' @ [CHR 0x0A]
     @ ''##ALT=<ID=DEL:ME,Description='' @ [CHR 0x22] @ ''Deletion of mobile element'' @ [CHR 0x22] @ ''>'' @ [CHR 0x0A]
     @ ''##ALT=<ID=INS:ME,Description='' @ [CHR 0x22] @ ''Insertion of mobile element'' @ [CHR 0x22] @ ''>'' @ [CHR 0x0A]
     @ concat (map (\<lambda>(key, len). ''##contig=<ID='' @ key @ '',length='' @ dec_int len @ ''>'' @ [CHR 0x0A])
                (hdr_ctg h0))
     @ ''#CHROM'' @ [CHR 0x09] @ ''POS'' @ [CHR 0x09] @ ''ID'' @ [CHR 0x09] @ ''REF'' @ [CHR 0x09]
     @ ''ALT'' @ [CHR 0x09] @ ''QUAL'' @ [CHR 0x09] @ ''FILTER'' @ [CHR 0x09] @ ''INFO''
     @ (if bm_flag bm AND BGT_F_NO_GT = 0 then
          [CHR 0x09] @ ''FORMAT''
          @ concat (map (\<lambda>(g, r). concat (map (\<lambda>j. CHR 0x09 # f_rows (bgt_f g) ! nat j) (bgt_out g)))
                     (bm_child bm))
        else [])"

text \<open>
  \<open>bgtm_prepare\<close>.  The two output planes are allocated with \<open>n_out<<1\<close> bytes each; their
  content is written by the first read (they are zero here).
\<close>

definition bgtm_prepare :: "'ke collab \<Rightarrow> bgtm \<Rightarrow> bgtm" where
  "bgtm_prepare env bm0 =
     (if bm_child bm0 = [] then bm0
      else
        (let ch = map (\<lambda>(g, r). (bgt_prepare env g, r)) (bm_child bm0);
             n_out = sum_list (map (\<lambda>(g, r). bgt_n_out g) ch);
             bm = bm0\<lparr>bm_child := ch, bm_n_out := n_out,
                      bm_group := concat (map (\<lambda>(g, r). bgt_group g) ch),
                      bm_sample_idx :=
                        concat (map (\<lambda>i. map (\<lambda>o'. push_bit 32 (word_of_nat i) OR word_of_int o')
                                              (bgt_out (fst (ch ! i)))) [0..<length ch])\<rparr>;
             h = bgtm_hdr_text bm (f_h0 (bgt_f (fst (hd ch))))
         in bm\<lparr>bm_h_out := Some ((bcf_hdr_parse env h)\<lparr>hdr_text := h\<rparr>),
               bm_a := (replicate (nat (push_bit 1 n_out)) 0, replicate (nat (push_bit 1 n_out)) 0)\<rparr>))"

definition bgtm_fill1 :: "bgt \<times> bgt_rec \<Rightarrow> error + (bgt \<times> bgt_rec)" where
  "bgtm_fill1 c =
     (case c of (g, r) \<Rightarrow>
        if r_b0 r = None then
          (case bgt_read_rec g of Inl e \<Rightarrow> Inl e | Inr (row, g', r') \<Rightarrow> Inr (g', r'))
        else Inr (g, r))"

fun bgtm_fill :: "(bgt \<times> bgt_rec) list \<Rightarrow> error + (bgt \<times> bgt_rec) list" where
  "bgtm_fill [] = Inr []"
| "bgtm_fill (c # cs) =
     (case bgtm_fill1 c of
        Inl e \<Rightarrow> Inl e
      | Inr c' \<Rightarrow> (case bgtm_fill cs of Inl e \<Rightarrow> Inl e | Inr cs' \<Rightarrow> Inr (c' # cs')))"

text \<open>One step of the search for the smallest site: \<open>b0\<close> and \<open>max_allele\<close> so far.\<close>

definition bgtm_pick :: "bgt_rec \<Rightarrow> bcf1 option \<times> int \<Rightarrow> bcf1 option \<times> int" where
  "bgtm_pick r acc =
     (case acc of (b0, max_allele) \<Rightarrow>
        (case r_b0 r of
           None \<Rightarrow> acc
         | Some rb \<Rightarrow>
             (case b0 of
                Some b \<Rightarrow>
                  (let j = bcfcmp b rb in
                   if j > 0 then (Some rb, n_allele rb)
                   else if j = 0 then
                     (b0, if n_allele rb > max_allele then n_allele rb else max_allele)
                   else acc)
              | None \<Rightarrow> (Some rb, n_allele rb))))"

text \<open>
  One child's part of the output planes: its buffered planes when its site is the output
  site (the slot is cleared), the missing code otherwise; nothing for a child without
  output samples.
\<close>

definition bgtm_gen_a1 :: "bcf1 \<Rightarrow> bgt \<times> bgt_rec \<Rightarrow> error + ((bgt \<times> bgt_rec) \<times> planes)" where
  "bgtm_gen_a1 b c =
     (case c of (g, r) \<Rightarrow>
        if bgt_n_out g = 0 then Inr ((g, r), ([], []))
        else
          (let n = nat (push_bit 1 (bgt_n_out g));
               missing = Inr ((g, r), (replicate n 0, replicate n 1))
           in case r_b0 r of
                None \<Rightarrow> missing
              | Some rb \<Rightarrow>
                  if bcfcmp b rb = 0 then
                    (case r_a r of
                       None \<Rightarrow> Inl OutOfBounds
                     | Some a \<Rightarrow>
                         if n \<le> length (fst a) \<and> n \<le> length (snd a)
                         then Inr ((g, r\<lparr>r_b0 := None\<rparr>), (take n (fst a), take n (snd a)))
                         else Inl OutOfBounds)
                  else missing))"

fun bgtm_gen_a :: "bcf1 \<Rightarrow> (bgt \<times> bgt_rec) list \<Rightarrow> error + ((bgt \<times> bgt_rec) list \<times> planes)" where
  "bgtm_gen_a b [] = Inr ([], ([], []))"
| "bgtm_gen_a b (c # cs) =
     (case bgtm_gen_a1 b c of
        Inl e \<Rightarrow> Inl e
      | Inr (c', a) \<Rightarrow>
          (case bgtm_gen_a b cs of
             Inl e \<Rightarrow> Inl e
           | Inr (cs', a') \<Rightarrow> Inr (c' # cs', (fst a @ fst a', snd a @ snd a'))))"

text \<open>\<open>cnt[4]\<close>: the number of haplotypes with each two-bit code.\<close>

definition count_codes :: "planes \<Rightarrow> nat \<Rightarrow> 32 word list" where
  "count_codes a n =
     fold (\<lambda>i cnt. cnt[nat (hap_code a i) := cnt ! nat (hap_code a i) + 1]) [0..<n] (replicate 4 0)"

text \<open>\<open>t[r][k] += v\<close> on a table of counters.\<close>

definition tbl_add :: "32 word list list \<Rightarrow> nat \<Rightarrow> nat \<Rightarrow> 32 word \<Rightarrow> 32 word list list" where
  "tbl_add t r k v = t[r := (t ! r)[k := t ! r ! k + v]]"

text \<open>
  The per-group counts \<open>gcnt[BGT_MAX_GROUPS+1][4]\<close>, first way (lines 438-445): one pass
  over the haplotypes, and for each the groups of its sample.
\<close>

definition gcnt_per_hap :: "planes \<Rightarrow> 8 word list \<Rightarrow> nat \<Rightarrow> int \<Rightarrow> 32 word list list" where
  "gcnt_per_hap a grp n n_groups =
     fold (\<lambda>i gcnt.
             (let ht = nat (hap_code a i) in
              if grp ! (drop_bit 1 i) \<noteq> 0 then
                fold (\<lambda>j gcnt. if uint (grp ! (drop_bit 1 i)) AND push_bit j 1 \<noteq> 0
                                then tbl_add gcnt (j + 1) ht 1 else gcnt)
                     [0..<nat n_groups] gcnt
              else gcnt))
          [0..<n] (replicate (nat (BGT_MAX_GROUPS + 1)) (replicate 4 0))"

text \<open>
  Second way (lines 447-455): count by grp mask and code into \<open>gcnt256[256][4]\<close>, then
  add each mask's counts to the groups whose bit the mask has.
\<close>

definition gcnt256_of :: "planes \<Rightarrow> 8 word list \<Rightarrow> nat \<Rightarrow> 32 word list list" where
  "gcnt256_of a grp n =
     fold (\<lambda>i t. tbl_add t (unat (grp ! (drop_bit 1 i))) (nat (hap_code a i)) 1)
          [0..<n] (replicate 256 (replicate 4 0))"

definition gcnt_bucket :: "planes \<Rightarrow> 8 word list \<Rightarrow> nat \<Rightarrow> int \<Rightarrow> 32 word list list" where
  "gcnt_bucket a grp n n_groups =
     (let gcnt256 = gcnt256_of a grp n in
      fold (\<lambda>i gcnt.
              fold (\<lambda>j gcnt. if int i AND push_bit j 1 \<noteq> 0
                              then fold (\<lambda>k gcnt. tbl_add gcnt (j + 1) k (gcnt256 ! i ! k)) [0..<4] gcnt
                              else gcnt)
                   [0..<nat n_groups] gcnt)
           [0..<256] (replicate (nat (BGT_MAX_GROUPS + 1)) (replicate 4 0)))"

text \<open>Lines 457-466: the INFO entries \<open>AN<i>\<close> and \<open>AC<i>\<close> of group \<open>i\<close>.\<close>

definition bgtm_group_info :: "bcf_hdr \<Rightarrow> 32 word list list \<Rightarrow> nat \<Rightarrow> bcf1 \<Rightarrow> bcf1" where
  "bgtm_group_info h gcnt i b =
     (let gan = gcnt ! i ! 0 + gcnt ! i ! 1 + gcnt ! i ! 3;
          gac = [gcnt ! i ! 1, gcnt ! i ! 3];
          b1 = bcf_append_info_ints h b (''AN'' @ [char_of (48 + i)]) 1 [sint gan]
      in bcf_append_info_ints h b1 (''AC'' @ [char_of (48 + i)]) (n_allele b1 - 1) (map sint gac))"

text \<open>
  The arrays \<open>gan\<close> and \<open>gac1\<close> handed to the filter: entries \<open>1..n_groups\<close> are set when
  there is more than one group; the other entries are never written (they are 0 here).
\<close>

definition gan_of :: "32 word list list \<Rightarrow> int \<Rightarrow> int list" where
  "gan_of gcnt n_groups =
     map (\<lambda>i. if 1 \<le> int i \<and> int i \<le> n_groups \<and> n_groups > 1
              then sint (gcnt ! i ! 0 + gcnt ! i ! 1 + gcnt ! i ! 3) else 0)
         [0..<nat (BGT_MAX_GROUPS + 1)]"

definition gac1_of :: "32 word list list \<Rightarrow> int \<Rightarrow> int list" where
  "gac1_of gcnt n_groups =
     map (\<lambda>i. if 1 \<le> int i \<and> int i \<le> n_groups \<and> n_groups > 1 then sint (gcnt ! i ! 1) else 0)
         [0..<nat (BGT_MAX_GROUPS + 1)]"

text \<open>
  Lines 425-470.  The result is the record with its INFO entries and whether the filter
  drops it.  Reading the planes or \<open>bm->group\<close> out of range, and more groups than the
  count arrays hold, are \<open>OutOfBounds\<close>.
\<close>

definition bgtm_counts :: "bgtm \<Rightarrow> bcf_hdr \<Rightarrow> planes \<Rightarrow> bcf1 \<Rightarrow> error + (bcf1 \<times> bool)" where
  "bgtm_counts bm h a b =
     (let n = nat (push_bit 1 (bm_n_out bm)) in
      if \<not> planes_ok a n then Inl OutOfBounds
      else
        (let cnt = count_codes a n;
             an = cnt ! 0 + cnt ! 1 + cnt ! 3;
             ac = [cnt ! 1, cnt ! 3];
             b1 = bcf_append_info_ints h b ''AN'' 1 [sint an];
             b2 = bcf_append_info_ints h b1 ''AC'' (n_allele b1 - 1) (map sint ac)
         in if bm_n_groups bm > 1 then
              (if bm_n_groups bm > BGT_MAX_GROUPS \<or> length (bm_group bm) < nat (bm_n_out bm)
               then Inl OutOfBounds
               else
                 (let gcnt = (if push_bit 1 (bm_n_out bm) < 1024
                              then gcnt_per_hap a (bm_group bm) n (bm_n_groups bm)
                              else gcnt_bucket a (bm_group bm) n (bm_n_groups bm));
                      b3 = fold (bgtm_group_info h gcnt) [1..<nat (bm_n_groups bm) + 1] b2
                  in Inr (b3, case bm_filter_func bm of
                                None \<Rightarrow> False
                              | Some ff \<Rightarrow> ff h b3 (sint an) (sint (ac ! 0)) (bm_n_groups bm)
                                            (gan_of gcnt (bm_n_groups bm)) (gac1_of gcnt (bm_n_groups bm)) \<noteq> 0)))
            else Inr (b2, case bm_filter_func bm of
                            None \<Rightarrow> False
                          | Some ff \<Rightarrow> ff h b2 (sint an) (sint (ac ! 0)) (bm_n_groups bm)
                                        (gan_of [] (bm_n_groups bm)) (gac1_of [] (bm_n_groups bm)) \<noteq> 0)))"

text \<open>
  Lines 404-408: the output site, copied from the smallest site \<open>b0\<close>, with \<open>END\<close> when
  the length of REF is not \<open>rlen\<close>.
\<close>

definition bgtm_site :: "bcf_hdr \<Rightarrow> bcf1 \<Rightarrow> int \<Rightarrow> bcf1" where
  "bgtm_site h b0 max_allele =
     (case bcfcpy_min b0 (if max_allele > 2 then Some ''<M>'' else None) of
        (l_ref, b) \<Rightarrow>
          if l_ref \<noteq> b_rlen b then bcf_append_info_ints h b ''END'' 1 [b_pos b + b_rlen b] else b)"

text \<open>
  Lines 425-473: counts and filter when asked for, then the genotypes unless \<open>NO_GT\<close> is
  set.  The result code is 1 when the filter drops the site.
\<close>

definition bgtm_finish :: "bgtm \<Rightarrow> bcf_hdr \<Rightarrow> planes \<Rightarrow> bcf1 \<Rightarrow> error + (int \<times> bcf1)" where
  "bgtm_finish bm h a b =
     (case (if bm_flag bm AND BGT_F_SET_AC \<noteq> 0 \<or> bm_filter_func bm \<noteq> None
            then bgtm_counts bm h a b else Inr (b, False)) of
        Inl e \<Rightarrow> Inl e
      | Inr (b3, dropped) \<Rightarrow>
          if dropped then Inr (1, b3)
          else if bm_flag bm AND BGT_F_NO_GT = 0 then
            (case bgt_gen_gt h b3 (bm_n_out bm) a of
               Inl e \<Rightarrow> Inl e
             | Inr b4 \<Rightarrow> Inr (0, b4))
          else Inr (0, b3))"

text \<open>
  \<open>bgtm_read_core\<close> returns the result code (\<open>-1\<close> when no child has a site left, \<open>1\<close>
  when the filter drops the site, \<open>0\<close> for an output site), the reader and the record \<open>b\<close>.
  The planes are written before \<open>assert(off == bm->n_out<<1)\<close> is reached.
\<close>

definition bgtm_read_core :: "bgtm \<Rightarrow> bcf1 \<Rightarrow> error + (int \<times> bgtm \<times> bcf1)" where
  "bgtm_read_core bm b =
     (case bgtm_fill (bm_child bm) of
        Inl e \<Rightarrow> Inl e
      | Inr ch \<Rightarrow>
          if list_all (\<lambda>c. r_b0 (snd c) = None) ch then Inr (- 1, bm\<lparr>bm_child := ch\<rparr>, b)
          else
            (case fold bgtm_pick (map snd ch) (None, 0) of
               (None, max_allele) \<Rightarrow> Inl AssertionFailed
             | (Some b0, max_allele) \<Rightarrow>
                 if \<not> max_allele \<ge> 2 then Inl AssertionFailed
                 else
                   (case bm_h_out bm of
                      None \<Rightarrow> Inl OutOfBounds
                    | Some h \<Rightarrow>
                        (case bgtm_gen_a (bgtm_site h b0 max_allele) ch of
                           Inl e \<Rightarrow> Inl e
                         | Inr (ch', a) \<Rightarrow>
                             if int (length (fst a)) \<noteq> push_bit 1 (bm_n_out bm)
                             then Inl AssertionFailed
                             else
                               (case bgtm_finish bm h a (bgtm_site h b0 max_allele) of
                                  Inl e \<Rightarrow> Inl e
                                | Inr (ret, b') \<Rightarrow>
                                    Inr (ret, bm\<lparr>bm_child := ch', bm_a := a\<rparr>, b'))))))"

text \<open>
  \<open>bgtm_read\<close>: prepare on the first call, then read until a site is not dropped.  The
  loop has no bound of its own: not returning is \<open>None\<close>.
\<close>

partial_function (option) bgtm_read_loop :: "bgtm \<Rightarrow> bcf1 \<Rightarrow> (error + (int \<times> bgtm \<times> bcf1)) option" where
  "bgtm_read_loop bm b =
     (case bgtm_read_core bm b of
        Inl e \<Rightarrow> Some (Inl e)
      | Inr (ret, bm', b') \<Rightarrow> if ret > 0 then bgtm_read_loop bm' b' else Some (Inr (ret, bm', b')))"

declare bgtm_read_loop.simps [code]

definition bgtm_read :: "'ke collab \<Rightarrow> bgtm \<Rightarrow> bcf1 \<Rightarrow> (error + (int \<times> bgtm \<times> bcf1)) option" where
  "bgtm_read env bm b =
     bgtm_read_loop (if bm_h_out bm = None then bgtm_prepare env bm else bm) b"

definition bgtm_set_flag :: "bgtm \<Rightarrow> int \<Rightarrow> bgtm" where
  "bgtm_set_flag bm flag = bm\<lparr>bm_flag := flag\<rparr>"

definition bgtm_set_filter :: "bgtm \<Rightarrow> bgt_filter_f option \<Rightarrow> bgtm" where
  "bgtm_set_filter bm func = bm\<lparr>bm_filter_func := func\<rparr>"

definition bgtm_set_bed :: "bgtm \<Rightarrow> (string \<Rightarrow> int \<Rightarrow> int \<Rightarrow> bool) option \<Rightarrow> int \<Rightarrow> bgtm" where
  "bgtm_set_bed bm bed excl = bm\<lparr>bm_child := map (\<lambda>(g, r). (bgt_set_bed g bed excl, r)) (bm_child bm)\<rparr>"

text \<open>
  The sites that the first \<open>k\<close> calls of \<open>bgtm_read\<close> emit, up to the first call that does
  not return a site.
\<close>

fun bgtm_outputs :: "'ke collab \<Rightarrow> nat \<Rightarrow> bgtm \<Rightarrow> bcf1 \<Rightarrow> bcf1 list" where
  "bgtm_outputs env 0 bm b = []"
| "bgtm_outputs env (Suc k) bm b =
     (case bgtm_read env bm b of
        Some (Inr (ret, bm', b')) \<Rightarrow> if ret = 0 then b' # bgtm_outputs env k bm' b' else []
      | _ \<Rightarrow> [])"

section \<open>C strings (ctype.h, stdlib.h)\<close>

text \<open>
  A C string is the list of its characters before the terminator.  Reading the
  character at the end gives the terminator; reading further is \<open>OutOfBounds\<close>.
\<close>

definition c_char :: "string \<Rightarrow> int \<Rightarrow> error + char" where
  "c_char s k =
     (if 0 \<le> k \<and> k < int (length s) then Inr (s ! nat k)
      else if k = int (length s) then Inr (CHR 0x00)
      else Inl OutOfBounds)"

text \<open>The pointer \<open>&s[k]\<close>, as the string that starts there.\<close>

definition c_ptr :: "string \<Rightarrow> int \<Rightarrow> error + string" where
  "c_ptr s k = (if 0 \<le> k \<and> k \<le> int (length s) then Inr (drop (nat k) s) else Inl OutOfBounds)"

definition c_isdigit :: "char \<Rightarrow> bool" where
  "c_isdigit c = (48 \<le> (of_char c :: nat) \<and> (of_char c :: nat) \<le> 57)"

definition c_isalpha :: "char \<Rightarrow> bool" where
  "c_isalpha c = ((65 \<le> (of_char c :: nat) \<and> (of_char c :: nat) \<le> 90)
     \<or> (97 \<le> (of_char c :: nat) \<and> (of_char c :: nat) \<le> 122))"

definition c_isspace :: "char \<Rightarrow> bool" where
  "c_isspace c = ((of_char c :: nat) = 32 \<or> (9 \<le> (of_char c :: nat) \<and> (of_char c :: nat) \<le> 13))"

definition c_toupper :: "char \<Rightarrow> char" where
  "c_toupper c = (if 97 \<le> (of_char c :: nat) \<and> (of_char c :: nat) \<le> 122
                  then char_of ((of_char c :: nat) - 32) else c)"

definition digit_val :: "char \<Rightarrow> int" where
  "digit_val c = int (of_char c) - 48"

definition dec_value :: "string \<Rightarrow> int" where
  "dec_value ds = foldl (\<lambda>v c. 10 * v + digit_val c) 0 ds"

text \<open>
  \<open>strtol(p, &p, 10)\<close>: the value, a \<open>long\<close> of 64 bits that saturates, and the number
  of characters read: white space, a sign, digits.  Without a digit nothing is read and
  the value is 0.
\<close>

definition clamp_long :: "int \<Rightarrow> int" where
  "clamp_long v = max (- (2 ^ 63)) (min (2 ^ 63 - 1) v)"

definition strtol :: "string \<Rightarrow> int \<times> nat" where
  "strtol p =
     (let ws = takeWhile c_isspace p;
          p1 = dropWhile c_isspace p;
          sg = (case p1 of [] \<Rightarrow> 0 | c # _ \<Rightarrow> if c = CHR ''-'' \<or> c = CHR ''+'' then 1 else (0 :: nat));
          neg = (case p1 of [] \<Rightarrow> False | c # _ \<Rightarrow> c = CHR ''-'');
          ds = takeWhile c_isdigit (drop sg p1)
      in if ds = [] then (0, 0)
         else (clamp_long (if neg then - dec_value ds else dec_value ds), length ws + sg + length ds))"

text \<open>The conversion of a \<open>long\<close> to \<open>int\<close>: the low 32 bits, read signed.\<close>

definition int_of_long :: "int \<Rightarrow> int" where
  "int_of_long v = sint (word_of_int v :: 32 word)"

section \<open>Atomizer (atomic.c)\<close>

record bcf_atom =
  at_rid :: int
  at_pos :: int
  at_rlen :: int
  at_anum :: int
  at_ref :: string
  at_alt :: string
  at_gt :: "8 word list"

text \<open>
  Modelled from the spec: \<open>bcf_atom_cmp\<close> is declared in atomic.h, which is not in the
  repository's files.  The spec orders atoms lexicographically on
  \<open>(rid, pos, rlen, ref, alt)\<close>.
\<close>

definition atom_key :: "bcf_atom \<Rightarrow> int \<times> int \<times> int \<times> string \<times> string" where
  "atom_key a = (at_rid a, at_pos a, at_rlen a, at_ref a, at_alt a)"

definition bcf_atom_cmp :: "bcf_atom \<Rightarrow> bcf_atom \<Rightarrow> int" where
  "bcf_atom_cmp a b = (if atom_key a < atom_key b then - 1 else if atom_key a = atom_key b then 0 else 1)"

text \<open>
  \<open>bcf_add_atom\<close>: \<open>ref\<close> and \<open>alt\<close> are the strings at the two pointers; a negative
  length stands for \<open>strlen\<close>.  \<open>kputsn\<close> copies the given number of bytes; copying the
  terminator as the last byte ends the copy as a C string, copying beyond it is
  \<open>OutOfBounds\<close>.
\<close>

definition bcf_add_atom ::
  "bcf_atom list \<Rightarrow> int \<Rightarrow> int \<Rightarrow> int \<Rightarrow> int \<Rightarrow> int \<Rightarrow> string \<Rightarrow> int \<Rightarrow> string \<Rightarrow> error + bcf_atom list" where
  "bcf_add_atom a rid pos rlen anum l_ref ref l_alt alt =
     (let l_ref' = (if l_ref < 0 then int (length ref) else l_ref);
          l_alt' = (if l_alt < 0 then int (length alt) else l_alt)
      in if l_ref' \<le> int (length ref) + 1 \<and> l_alt' \<le> int (length alt) + 1 then
           Inr (a @ [\<lparr>at_rid = rid, at_pos = pos, at_rlen = rlen, at_anum = anum,
                      at_ref = take (nat l_ref') ref, at_alt = take (nat l_alt') alt, at_gt = []\<rparr>])
         else Inl OutOfBounds)"

text \<open>Lines 121-141: the CIGAR made up for an ALT when the site has no \<open>CIGAR\<close> field.\<close>

definition gen_cigar :: "int \<Rightarrow> int \<Rightarrow> string" where
  "gen_cigar rlen l_alt =
     (if l_alt = rlen then dec_int rlen @ ''M''
      else
        (let l = l_alt - rlen in
         ''1M''
         @ (if l > 0 then dec_int l @ ''I'' else dec_int (- l) @ ''D'')
         @ (let rest = (if l > 0 then rlen - 1 else l_alt - 1) in
            if rest \<noteq> 0 then dec_int rest @ ''M'' else [])))"

text \<open>Lines 147-149: one position of an \<open>M\<close>, \<open>=\<close> or \<open>X\<close> run.\<close>

definition snv_step :: "bcf1 \<Rightarrow> int \<Rightarrow> string \<Rightarrow> string \<Rightarrow> int \<Rightarrow> int \<Rightarrow> int \<Rightarrow> bcf_atom list \<Rightarrow> error + bcf_atom list" where
  "snv_step b i ref alt x y j a =
     (case (c_char ref (x + j), c_char alt (y + j)) of
        (Inr r, Inr t) \<Rightarrow>
          if r \<noteq> t then
            bcf_add_atom a (b_rid b) (b_pos b + x + j) 1 i 1 (drop (nat (x + j)) ref) 1 (drop (nat (y + j)) alt)
          else Inr a
      | _ \<Rightarrow> Inl OutOfBounds)"

fun snv_loop :: "bcf1 \<Rightarrow> int \<Rightarrow> string \<Rightarrow> string \<Rightarrow> int \<Rightarrow> int \<Rightarrow> nat list \<Rightarrow> bcf_atom list \<Rightarrow> error + bcf_atom list" where
  "snv_loop b i ref alt x y [] a = Inr a"
| "snv_loop b i ref alt x y (j # js) a =
     (case snv_step b i ref alt x y (int j) a of
        Inl e \<Rightarrow> Inl e
      | Inr a' \<Rightarrow> snv_loop b i ref alt x y js a')"

text \<open>
  Lines 146-159: one CIGAR operation \<open>op\<close> of length \<open>l\<close> at the cursors \<open>x\<close> (on REF) and
  \<open>y\<close> (on the ALT \<open>i\<close>).  An operation other than \<open>M = X I D\<close> does nothing.
\<close>

definition cigar_step ::
  "bcf1 \<Rightarrow> int \<Rightarrow> string \<Rightarrow> string \<Rightarrow> char \<Rightarrow> int \<Rightarrow> int \<times> int \<times> bcf_atom list \<Rightarrow> error + (int \<times> int \<times> bcf_atom list)" where
  "cigar_step b i ref alt op l s =
     (case s of (x, y, a) \<Rightarrow>
        if op = CHR ''M'' \<or> op = CHR ''='' \<or> op = CHR ''X'' then
          (case snv_loop b i ref alt x y [0..<nat l] a of
             Inl e \<Rightarrow> Inl e
           | Inr a' \<Rightarrow> Inr (x + l, y + l, a'))
        else if op = CHR ''I'' then
          (if \<not> (x > 0 \<and> y > 0) then Inl AssertionFailed
           else (case (c_ptr ref (x - 1), c_ptr alt (y - 1)) of
                   (Inr r, Inr t) \<Rightarrow>
                     (case bcf_add_atom a (b_rid b) (b_pos b + x - 1) 1 i 1 r (l + 1) t of
                        Inl e \<Rightarrow> Inl e
                      | Inr a' \<Rightarrow> Inr (x, y + l, a'))
                 | _ \<Rightarrow> Inl OutOfBounds))
        else if op = CHR ''D'' then
          (if \<not> (x > 0 \<and> y > 0) then Inl AssertionFailed
           else (case (c_ptr ref (x - 1), c_ptr alt (y - 1)) of
                   (Inr r, Inr t) \<Rightarrow>
                     (case bcf_add_atom a (b_rid b) (b_pos b + x - 1) (l + 1) i (l + 1) r 1 t of
                        Inl e \<Rightarrow> Inl e
                      | Inr a' \<Rightarrow> Inr (x + l, y, a'))
                 | _ \<Rightarrow> Inl OutOfBounds))
        else Inr s)"

text \<open>
  Lines 144-160: the walk over the CIGAR string \<open>p\<close>.  A length with no operation
  behind it makes the loop step over the terminator.
\<close>

function cigar_walk ::
  "bcf1 \<Rightarrow> int \<Rightarrow> string \<Rightarrow> string \<Rightarrow> string \<Rightarrow> int \<times> int \<times> bcf_atom list \<Rightarrow> error + (int \<times> int \<times> bcf_atom list)" where
  "cigar_walk b i ref alt p s =
     (if p = [] then Inr s
      else
        (case strtol p of
           (v, n) \<Rightarrow>
             if n < length p then
               (case cigar_step b i ref alt (p ! n) (int_of_long v) s of
                  Inl e \<Rightarrow> Inl e
                | Inr s' \<Rightarrow> cigar_walk b i ref alt (drop (Suc n) p) s')
             else Inl OutOfBounds))"
  by pat_completeness auto
termination
  by (relation "measure (\<lambda>(b, i, ref, alt, p, s). length p)") auto

text \<open>
  Lines 105-160: the atoms of ALT \<open>i\<close>.  The state is the atom vector and \<open>p_cigar\<close>, the
  rest of the \<open>CIGAR\<close> field when the header declares one.
\<close>

definition atomize_allele ::
  "bcf1 \<Rightarrow> nat \<Rightarrow> bcf_atom list \<times> string option \<Rightarrow> error + (bcf_atom list \<times> string option)" where
  "atomize_allele b i s =
     (case s of (a, p_cigar) \<Rightarrow>
        (let ref = b_allele b ! 0; alt = b_allele b ! i in
         if b_rlen b \<noteq> int (length ref) \<or> (first_char alt = CHR ''<'' \<and> last alt = CHR ''>'') then
           (case bcf_add_atom a (b_rid b) (b_pos b) (b_rlen b) (int i) (- 1) ref (- 1) alt of
              Inl e \<Rightarrow> Inl e
            | Inr a' \<Rightarrow> Inr (a', p_cigar))
         else
           (case p_cigar of
              Some cig \<Rightarrow>
                if takeWhile (\<lambda>c. c \<noteq> CHR '','') cig = [] then Inl AssertionFailed
                else
                  (case cigar_walk b (int i) ref alt (takeWhile (\<lambda>c. c \<noteq> CHR '','') cig) (0, 0, a) of
                     Inl e \<Rightarrow> Inl e
                   | Inr (x, y, a') \<Rightarrow> Inr (a', Some (dropWhile (\<lambda>c. c \<noteq> CHR '','') cig)))
            | None \<Rightarrow>
                (case cigar_walk b (int i) ref alt (gen_cigar (b_rlen b) (int (length alt))) (0, 0, a) of
                   Inl e \<Rightarrow> Inl e
                 | Inr (x, y, a') \<Rightarrow> Inr (a', None)))))"

fun atomize_alleles ::
  "bcf1 \<Rightarrow> nat list \<Rightarrow> bcf_atom list \<times> string option \<Rightarrow> error + (bcf_atom list \<times> string option)" where
  "atomize_alleles b [] s = Inr s"
| "atomize_alleles b (i # is) s =
     (case atomize_allele b i s of
        Inl e \<Rightarrow> Inl e
      | Inr s' \<Rightarrow> atomize_alleles b is s')"

text \<open>
  \<open>ks_introsort\<close> sorts with \<open>atom_lt\<close>.  It is not stable; atoms that compare equal
  differ in \<open>anum\<close> only, and the model keeps them in the order of their emission.
\<close>

definition sort_atoms :: "bcf_atom list \<Rightarrow> bcf_atom list" where
  "sort_atoms a = sort_key atom_key a"

text \<open>Lines 27-30: \<open>eq[i]\<close> is the index of the first atom of the run that \<open>a[i]\<close> is in.\<close>

fun eq_runs :: "bcf_atom list \<Rightarrow> nat \<Rightarrow> nat list" where
  "eq_runs a 0 = [0]"
| "eq_runs a (Suc i) =
     (let eq = eq_runs a i in
      eq @ [if bcf_atom_cmp (a ! i) (a ! Suc i) \<noteq> 0 then Suc i else eq ! i])"

text \<open>Lines 38-44: the translation table of the representative \<open>a[k]\<close>.\<close>

definition atom_tr :: "bcf_atom list \<Rightarrow> nat list \<Rightarrow> nat \<Rightarrow> nat \<Rightarrow> 8 word list" where
  "atom_tr a eq n_al k =
     fold (\<lambda>i tr.
             if eq ! i = eq ! k then tr[nat (at_anum (a ! i)) := 1]
             else if at_pos (a ! i) < at_pos (a ! k) + at_rlen (a ! k)
                     \<and> at_pos (a ! k) < at_pos (a ! i) + at_rlen (a ! i)
             then tr[nat (at_anum (a ! i)) := 3]
             else tr)
          [0..<length a] (replicate n_al 0)"

text \<open>Lines 48-49: the code of one haplotype, from its genotype byte.\<close>

definition atom_gt1 :: "8 word list \<Rightarrow> 8 word \<Rightarrow> 8 word" where
  "atom_gt1 tr g = (let c = uint (drop_bit 1 g) - 1 in if c < 0 then 2 else tr ! nat c)"

text \<open>
  \<open>bcf_atom_gen_at\<close> returns the number of representatives and the atoms, the
  representatives first.  It writes \<open>eq[0]\<close> even when there is no atom, and it indexes
  \<open>tr\<close> with \<open>anum\<close> and with every allele number of the genotypes.
\<close>

definition bcf_atom_gen_at :: "bcf_hdr \<Rightarrow> bcf1 \<Rightarrow> bcf_atom list \<Rightarrow> error + (nat \<times> bcf_atom list)" where
  "bcf_atom_gen_at h b a0 =
     (let id_GT = bcf_id2int h BCF_DT_ID ''GT'' in
      if \<not> id_GT \<ge> 0 then Inl AssertionFailed
      else
        (case find (\<lambda>f. fmt_id f = id_GT) (b_fmt b) of
           None \<Rightarrow> Inl AssertionFailed
         | Some gt \<Rightarrow>
             if \<not> fmt_n gt = 2 then Inl AssertionFailed
             else if a0 = [] then Inl OutOfBounds
             else
               (let a = sort_atoms a0;
                    n = length a;
                    eq = eq_runs a (n - 1);
                    n_al = length (b_allele b);
                    m = nat (b_n_sample b * fmt_n gt);
                    p = take m (fmt_p gt)
                in if \<not> (list_all (\<lambda>x. 0 \<le> at_anum x \<and> at_anum x < int n_al) a
                          \<and> m \<le> length (fmt_p gt)
                          \<and> list_all (\<lambda>g. uint (drop_bit 1 g) - 1 < int n_al) p)
                   then Inl OutOfBounds
                   else
                     (let a' = map (\<lambda>k. if eq ! k \<noteq> k then a ! k
                                         else (a ! k)\<lparr>at_gt := map (atom_gt1 (atom_tr a eq n_al k)) p\<rparr>)
                                   [0..<n];
                          reps = filter (\<lambda>k. eq ! k = k) [0..<n];
                          dups = filter (\<lambda>k. eq ! k \<noteq> k) [0..<n]
                      in Inr (length reps, map (\<lambda>k. a' ! k) reps @ rev (map (\<lambda>k. a' ! k) dups))))))"

text \<open>
  \<open>bcf_atomize\<close> appends the atoms of the site \<open>b\<close> to the vector \<open>a\<close>.
\<close>

definition bcf_atomize :: "bcf_hdr \<Rightarrow> bcf1 \<Rightarrow> bcf_atom list \<Rightarrow> error + bcf_atom list" where
  "bcf_atomize h b a =
     (let cid = bcf_id2int h BCF_DT_ID ''CIGAR'' in
      case (if cid \<ge> 0 then
              (case find (\<lambda>e. fst e = cid) (b_info b) of
                 Some (k, Chars s) \<Rightarrow> Inr (Some s)
               | _ \<Rightarrow> Inl AssertionFailed)
            else Inr None) of
        Inl e \<Rightarrow> Inl e
      | Inr p_cigar \<Rightarrow>
          if b_allele b = [] then Inl OutOfBounds
          else
            (case atomize_alleles b [1..<length (b_allele b)] (a, p_cigar) of
               Inl e \<Rightarrow> Inl e
             | Inr (a1, p) \<Rightarrow>
                 (case bcf_atom_gen_at h b (drop (length a) a1) of
                    Inl e \<Rightarrow> Inl e
                  | Inr (n, new) \<Rightarrow> Inr (a @ take n new))))"

section \<open>Allele parsing (bgt.c)\<close>

text \<open>
  \<open>bgt_allele_t\<close>: \<open>chr\<close> holds the contig name and, behind its terminator, the ALT that
  \<open>alt\<close> points to; \<open>al_alt\<close> is \<open>None\<close> while \<open>alt\<close> is null.
\<close>

record bgt_allele =
  al_chr :: string
  al_pos :: int
  al_rlen :: int
  al_alt :: "string option"

text \<open>
  Lines 520-522: the number of leading characters of the ALT that are letters and equal,
  up to case, the character of REF at the same offset.  The second argument is the
  string at \<open>ref\<close>, which runs on behind the REF literal; the loop ends at the latest where
  that string ends.
\<close>

fun ltrim :: "string \<Rightarrow> string \<Rightarrow> nat" where
  "ltrim (c # alt) (r # ref) = (if c_isalpha c \<and> c_toupper c = c_toupper r then Suc (ltrim alt ref) else 0)"
| "ltrim alt ref = 0"

text \<open>
  Line 531: the number of trailing characters that REF and ALT share, up to case.  The
  arguments are the characters \<open>ref[rlen-1], ref[rlen-2], ...\<close> and
  \<open>alt[l_alt-1], alt[l_alt-2], ...\<close>; the loop ends at the latest where the shorter ends.
\<close>

fun rtrim :: "string \<Rightarrow> string \<Rightarrow> nat" where
  "rtrim (r # ref) (c # alt) = (if c_isalpha r \<and> c_toupper r = c_toupper c then Suc (rtrim ref alt) else 0)"
| "rtrim ref alt = 0"

text \<open>
  \<open>bgt_al_parse\<close>, as \<open>al_parse_core\<close>: the return value, the allele \<open>a\<close> as the function
  leaves it, and one thing more that is not a result of the C function: the part of the
  REF literal that is left after trimming (\<open>ref[0..rlen)\<close> at the end of the function),
  \<open>None\<close> when the input gives a length in place of REF.  The string \<open>al\<close> is a C string: it
  holds no terminator.  \<open>pos\<close>, \<open>rlen\<close>, \<open>off\<close> and \<open>l_alt\<close> are \<open>int\<close>s of 32 bits:
  what is stored in \<open>pos\<close> and \<open>rlen\<close> is wrapped (\<open>int_of_long\<close>), as the compiled code
  does.  The two trimming loops are those of the code for strings that an \<open>int\<close> can
  index, that is for an input shorter than \<open>2^31\<close> characters.
\<close>

definition al_parse_core :: "string \<Rightarrow> int \<times> bgt_allele \<times> string option" where
  "al_parse_core al =
     (let a0 = \<lparr>al_chr = [], al_pos = - 1, al_rlen = - 1, al_alt = None\<rparr>;
          p1 = dropWhile (\<lambda>c. c \<noteq> CHR '':'') al
      in if p1 = [] then (- 1, a0, None)
         else
           (let a1 = a0\<lparr>al_chr := takeWhile (\<lambda>c. c \<noteq> CHR '':'') al\<rparr>;
                p2 = tl p1
            in if \<not> c_isdigit (first_char p2) then (- 1, a1, None)
               else
                 (let a2 = a1\<lparr>al_pos := int_of_long (fst (strtol p2) - 1)\<rparr>;
                      p3 = drop (snd (strtol p2)) p2
                  in if first_char p3 \<noteq> CHR '':'' then (- 1, a2, None)
                     else
                       (let p4 = tl p3 in
                        if c_isdigit (first_char p4) then
                          (let a3 = a2\<lparr>al_rlen := int_of_long (fst (strtol p4))\<rparr>;
                               p5 = drop (snd (strtol p4)) p4
                           in if first_char p5 \<noteq> CHR '':'' then (- 1, a3, None)
                              else (0, a3\<lparr>al_alt := Some (tl p5)\<rparr>, None))
                        else if c_isalpha (first_char p4) then
                          (let a3 = a2\<lparr>al_rlen := int_of_long (int (length (takeWhile c_isalpha p4)))\<rparr>;
                               p5 = dropWhile c_isalpha p4
                           in if first_char p5 \<noteq> CHR '':'' then (- 1, a3, None)
                              else
                                (let alt = tl p5;
                                     off = ltrim alt p4;
                                     ref' = drop off (takeWhile c_isalpha p4);
                                     alt' = drop off alt;
                                     off2 = rtrim (rev ref') (rev alt')
                                 in (0,
                                     a3\<lparr>al_pos := int_of_long (al_pos a2 + int off),
                                        al_rlen := int_of_long (int_of_long (al_rlen a3 - int off) - int off2),
                                        al_alt := Some (take (length alt' - off2) alt')\<rparr>,
                                     Some (take (length ref' - off2) ref'))))
                        else (- 1, a2, None)))))"

definition bgt_al_parse :: "string \<Rightarrow> int \<times> bgt_allele" where
  "bgt_al_parse al = (case al_parse_core al of (ret, a, r) \<Rightarrow> (ret, a))"

text \<open>
  The shorthand \<open>chr:(pos+1):REF:ALT\<close> of a parsed allele and a REF string, which the
  round-trip property is about; the repository has no function that writes it.
\<close>

definition al_shorthand :: "bgt_allele \<Rightarrow> string \<Rightarrow> string" where
  "al_shorthand a ref =
     al_chr a @ '':'' @ dec_int (al_pos a + 1) @ '':'' @ ref @ '':''
     @ (case al_alt a of None \<Rightarrow> [] | Some alt \<Rightarrow> alt)"

text \<open>
  REF and ALT are trimmed when one of them is empty, or they differ, up to case, in
  their first and in their last character.
\<close>

definition al_trimmed :: "string \<Rightarrow> string \<Rightarrow> bool" where
  "al_trimmed ref alt =
     (ref = [] \<or> alt = []
      \<or> (c_toupper (hd ref) \<noteq> c_toupper (hd alt) \<and> c_toupper (last ref) \<noteq> c_toupper (last alt)))"

section \<open>Sample selection\<close>

text \<open>
  A sample is selected by a call of \<open>bgt_add_group_core\<close> when the call passes the "all
  samples" sentinel, or passes names or an expression and the sample's name is among the
  names or the compiled expression holds on its row.
\<close>

definition group_selects :: "'ke collab \<Rightarrow> bgt \<Rightarrow> int \<Rightarrow> string list \<Rightarrow> string option \<Rightarrow> nat \<Rightarrow> bool" where
  "group_selects env g n samples expr i =
     (n = BGT_SET_ALL_SAMPLES
      \<or> ((n > 0 \<or> expr \<noteq> None) \<and> sample_matches env g n samples (parse_expr env expr) i))"


section \<open>Count tables\<close>

text \<open>
  A table of counters with \<open>R\<close> rows of 4 entries, read as a function: \<open>tbl_is t R F\<close>
  says that \<open>t\<close> has this shape and holds \<open>F r k\<close> at row \<open>r\<close>, column \<open>k\<close>.
\<close>

definition tbl_is :: "32 word list list \<Rightarrow> nat \<Rightarrow> (nat \<Rightarrow> nat \<Rightarrow> 32 word) \<Rightarrow> bool" where
  "tbl_is t R F = (length t = R \<and> list_all (\<lambda>r. length (t ! r) = 4 \<and> list_all (\<lambda>k. t ! r ! k = F r k) [0..<4]) [0..<R])"

section \<open>Merge order: states and invariant\<close>

text \<open>
  The sites a child still has to deliver: the site in its slot, if any, then the rest of
  its stream.
\<close>

definition child_pending :: "bgt \<times> bgt_rec \<Rightarrow> bcf1 list" where
  "child_pending c = (case r_b0 (snd c) of None \<Rightarrow> [] | Some x \<Rightarrow> [x]) @ bgt_stream (fst c)"

text \<open>The order of the merge: \<open>site_key\<close>, compared lexicographically.\<close>

definition site_lt :: "bcf1 \<Rightarrow> bcf1 \<Rightarrow> bool" where
  "site_lt x y = (site_key x < site_key y)"

text \<open>
  The conditions under which the merge is examined.  A slot is filled only by
  \<open>bgt_read_rec\<close>, which fills none for a child without output samples.
\<close>

definition slot_ok :: "bgt \<times> bgt_rec \<Rightarrow> bool" where
  "slot_ok c = (r_b0 (snd c) = None \<or> bgt_n_out (fst c) \<noteq> 0)"

text \<open>What \<open>bgtm_fill1\<close> does to a child: it drops a prefix of the pending sites.\<close>

definition filled :: "bgt \<times> bgt_rec \<Rightarrow> bgt \<times> bgt_rec \<Rightarrow> bool" where
  "filled c c' = (bgt_n_out (fst c') = bgt_n_out (fst c)
     \<and> (\<exists>ys. child_pending c = ys @ child_pending c')
     \<and> (if slot_ok c then slot_ok c' else True)
     \<and> (if bgt_n_out (fst c) \<noteq> 0 \<and> r_b0 (snd c') = None then child_pending c' = [] else True))"

text \<open>What \<open>bgtm_gen_a1\<close> does to a child when the output site is \<open>b\<close>.\<close>

definition cleared :: "bcf1 \<Rightarrow> bgt \<times> bgt_rec \<Rightarrow> bgt \<times> bgt_rec" where
  "cleared b c =
     (if bgt_n_out (fst c) \<noteq> 0 \<and> (case r_b0 (snd c) of None \<Rightarrow> False | Some rb \<Rightarrow> site_key b = site_key rb)
      then (fst c, (snd c)\<lparr>r_b0 := None\<rparr>) else c)"

text \<open>The key of the last output site, if there is one, bounds the pending sites from below.\<close>

type_synonym skey = "int \<times> int \<times> int \<times> string \<times> string"

definition bound_ok :: "skey option \<Rightarrow> skey \<Rightarrow> bool" where
  "bound_ok L k = (case L of None \<Rightarrow> True | Some l \<Rightarrow> l < k)"

definition child_inv :: "skey option \<Rightarrow> bgt \<times> bgt_rec \<Rightarrow> bool" where
  "child_inv L c = (slot_ok c
     \<and> (if bgt_n_out (fst c) \<noteq> 0
         then sorted_wrt site_lt (child_pending c)
              \<and> list_all (\<lambda>x. bound_ok L (site_key x) \<and> 2 \<le> n_allele x) (child_pending c)
         else True))"

definition settled :: "bgt \<times> bgt_rec \<Rightarrow> bool" where
  "settled c = (if bgt_n_out (fst c) \<noteq> 0 \<and> r_b0 (snd c) = None then child_pending c = [] else True)"

definition total_pending :: "(bgt \<times> bgt_rec) list \<Rightarrow> nat" where
  "total_pending cs = sum_list (map (\<lambda>c. length (child_pending c)) cs)"

text \<open>
  \<open>bgtm_ready\<close>: every slot is empty, or the reader is prepared and the slot belongs to a
  child with output samples (so every reader made by \<open>bgtm_reader_init\<close> is ready).
  \<open>bgtm_streams_sorted\<close>: every child's pending sites are strictly increasing by key,
  and each has a REF and at least one ALT.
\<close>

definition bgtm_ready :: "bgtm \<Rightarrow> bool" where
  "bgtm_ready bm = list_all (\<lambda>c. r_b0 (snd c) = None \<or> (bm_h_out bm \<noteq> None \<and> bgt_n_out (fst c) \<noteq> 0))
     (bm_child bm)"

definition bgtm_streams_sorted :: "bgtm \<Rightarrow> bool" where
  "bgtm_streams_sorted bm = list_all (\<lambda>c. sorted_wrt site_lt (child_pending c)
       \<and> list_all (\<lambda>x. 2 \<le> n_allele x) (child_pending c)) (bm_child bm)"

section \<open>Example readers\<close>

text \<open>
  A file with two samples and three sites, and collaborators for it: an expression
  compiler that accepts every string, a sample table on which every compiled expression
  holds (so that \<open>?\<close> is the unrestricted expression), and a header parser that knows
  the keys \<open>_row\<close> and \<open>GT\<close>.
\<close>

definition ex_dict :: "int \<Rightarrow> string \<Rightarrow> int" where
  "ex_dict which s = (if s = ''_row'' then 1 else if s = ''GT'' then 2 else if s = ''END'' then 3 else - 1)"

definition ex_h0 :: bcf_hdr where
  "ex_h0 = \<lparr>hdr_text = ''##fileformat=VCFv4.1'', hdr_ctg = [(''1'', 1000)], hdr_dict = ex_dict\<rparr>"

definition ex_env :: "unit collab" where
  "ex_env = \<lparr>fopen_ok = (\<lambda>s. False), hts_readlines = (\<lambda>s. []),
     ke_parse = (\<lambda>s. (Some (), 0)),
     fmf_test = (\<lambda>rows i ke. True),
     bcf_hdr_parse = (\<lambda>t. \<lparr>hdr_text = t, hdr_ctg = [(''1'', 1000)], hdr_dict = ex_dict\<rparr>)\<rparr>"

definition ex_site :: "int \<Rightarrow> string \<Rightarrow> string \<Rightarrow> int \<Rightarrow> bcf1" where
  "ex_site p ref alt row =
     \<lparr>b_rid = 0, b_pos = p, b_rlen = int (length ref), b_n_fmt = 0, b_n_sample = 0,
      b_allele = [ref, alt], b_info = [(1, Ints [row])], b_fmt = [], b_indiv = []\<rparr>"

definition ex_pb :: pbf where
  "ex_pb = \<lparr>pb_plane0 = (\<lambda>row t. row = 0 \<and> t = 1), pb_plane1 = (\<lambda>row t. row = 1 \<and> t = 2),
            pb_sub = [], pb_row = 0\<rparr>"

definition ex_file :: bgt_file where
  "ex_file = \<lparr>f_rows = [''S1'', ''S2''], f_h0 = ex_h0\<rparr>"

definition ex_bgt :: bgt where
  "ex_bgt = bgt_reader_init ex_file
     [ex_site 100 ''A'' ''T'' 0, ex_site 200 ''C'' ''G'' 1, ex_site 300 ''G'' ''A'' 2] ex_pb"

text \<open>The same file with its second site stored twice.\<close>

definition ex_bgt_dup :: bgt where
  "ex_bgt_dup = bgt_reader_init ex_file
     [ex_site 100 ''A'' ''T'' 0, ex_site 200 ''C'' ''G'' 1, ex_site 200 ''C'' ''G'' 2] ex_pb"

definition ex_b :: bcf1 where
  "ex_b = \<lparr>b_rid = 0, b_pos = 0, b_rlen = 0, b_n_fmt = 0, b_n_sample = 0,
           b_allele = [], b_info = [], b_fmt = [], b_indiv = []\<rparr>"

definition ex_bgtm :: bgtm where
  "ex_bgtm = bgtm_reader_init
     [(ex_file, [ex_site 100 ''A'' ''T'' 0, ex_site 200 ''C'' ''G'' 1, ex_site 300 ''G'' ''A'' 2], ex_pb),
      (ex_file, [ex_site 200 ''C'' ''G'' 0, ex_site 400 ''T'' ''C'' 1], ex_pb)]"

definition ex_bgtm_dup :: bgtm where
  "ex_bgtm_dup = bgtm_reader_init
     [(ex_file, [ex_site 100 ''A'' ''T'' 0, ex_site 200 ''C'' ''G'' 1, ex_site 200 ''C'' ''G'' 2], ex_pb)]"

text \<open>
  Three sites with one sample of genotype \<open>1/0\<close>: the deletion \<open>ACGT\<close> to \<open>A\<close> at
  position 10, the site \<open>ACGT\<close> to \<open>T\<close> there, and the site \<open>A\<close> to \<open>CGT\<close> at position 7.
\<close>

definition ex_site_gt :: "int \<Rightarrow> string \<Rightarrow> string \<Rightarrow> bcf1" where
  "ex_site_gt p ref alt =
     \<lparr>b_rid = 0, b_pos = p, b_rlen = int (length ref), b_n_fmt = 1, b_n_sample = 1,
      b_allele = [ref, alt], b_info = [],
      b_fmt = [\<lparr>fmt_id = 2, fmt_n = 2, fmt_p = [4, 2]\<rparr>], b_indiv = []\<rparr>"

text \<open>
  The example reader after eight declarations of the group of all samples; the reader
  prepared with one group that names a sample the file does not hold; and the example
  merged reader, prepared.
\<close>

definition ex_bgt8 :: bgt where
  "ex_bgt8 = ((\<lambda>g. bgt_add_group_core ex_env g BGT_SET_ALL_SAMPLES [] None) ^^ 8) ex_bgt"

definition ex_bgt_empty :: bgt where
  "ex_bgt_empty = bgt_prepare ex_env (bgt_add_group_core ex_env ex_bgt 1 [''nobody''] None)"

definition ex_bgtm_prepared :: bgtm where
  "ex_bgtm_prepared = bgtm_prepare ex_env ex_bgtm"

section \<open>Codec round trip\<close>

lemma sint_narrow:
  fixes x :: "32 word"
  assumes "LENGTH('b::len) \<le> 32" "- (2 ^ (LENGTH('b) - 1)) \<le> sint x" "sint x < 2 ^ (LENGTH('b) - 1)"
  shows "sint (ucast x :: 'b word) = sint x"
proof -
  have "sint (ucast x :: 'b word) = signed_take_bit (LENGTH('b) - 1) (uint x)"
    by (simp add: signed_ucast_eq)
  also have "\<dots> = signed_take_bit (LENGTH('b) - 1) (signed_take_bit 31 (uint x))"
    using assms(1) by (simp add: min_def) arith
  also have "signed_take_bit 31 (uint x) = sint x"
    by (simp add: sint_uint)
  also have "signed_take_bit (LENGTH('b) - 1) (sint x) = sint x"
    using assms(2,3) by (simp add: signed_take_bit_int_eq_self)
  finally show ?thesis .
qed

lemma scast_ucast_narrow:
  fixes x :: "32 word"
  assumes "LENGTH('b::len) \<le> 32" "- (2 ^ (LENGTH('b) - 1)) \<le> sint x" "sint x < 2 ^ (LENGTH('b) - 1)"
  shows "(scast (ucast x :: 'b word) :: 32 word) = x"
proof (rule signed_word_eqI)
  have "sint (scast (ucast x :: 'b word) :: 32 word) = sint (ucast x :: 'b word)"
    using assms(1) by (simp add: sint_up_scast is_up)
  then show "sint (scast (ucast x :: 'b word) :: 32 word) = sint x"
    using assms by (simp add: sint_narrow)
qed

lemma int16_at_bytes:
  "int16_at (s @ t # bytes_of_int16 z @ r) (Suc (length s)) = z"
proof -
  have "(ucast (ucast z :: 8 word) :: 16 word) OR push_bit 8 (ucast (ucast (drop_bit 8 z) :: 8 word)) = z"
    by (rule bit_word_eqI) (auto simp add: bit_simps)
  then show ?thesis
    by (simp add: int16_at_def bytes_of_int16_def nth_append)
qed

lemma int32_at_bytes:
  "int32_at (s @ t # bytes_of_int32 z @ r) (Suc (length s)) = z"
proof -
  have "(ucast (ucast z :: 8 word) :: 32 word) OR push_bit 8 (ucast (ucast (drop_bit 8 z) :: 8 word))
      OR push_bit 16 (ucast (ucast (drop_bit 16 z) :: 8 word))
      OR push_bit 24 (ucast (ucast (drop_bit 24 z) :: 8 word)) = z"
    apply (rule bit_word_eqI)
    apply (auto simp add: bit_simps)
    subgoal for n by (cases "n < 24") simp_all
    done
  then show ?thesis
    by (simp add: int32_at_def bytes_of_int32_def nth_append)
qed

lemma scast_down8: "(scast (x :: 32 word) :: 8 word) = ucast x"
  by (rule bit_word_eqI) (auto simp add: bit_simps)

text \<open>
  C5.  For every 32-bit integer \<open>x\<close> other than \<open>INT32_MIN\<close> (so for every \<open>x\<close> in
  \<open>[INT32_MIN+1, INT32_MAX]\<close>, the 8-, 16- and 32-bit vector-end markers and the 8- and
  16-bit missing markers included), decoding with \<open>bcf_dec_typed_int1\<close> at the place where
  \<open>bcf_enc_int1\<close> wrote \<open>x\<close> gives \<open>x\<close> back, and the cursor stops exactly behind the
  encoding, whatever bytes precede and follow it.
\<close>

theorem bcf_int1_roundtrip:
  "sint x \<noteq> INT32_MIN \<Longrightarrow>
   bcf_dec_typed_int1 (bcf_enc_int1 s x @ rest) (length s) = Inr (x, length (bcf_enc_int1 s x))"
proof -
  assume ne: "sint x \<noteq> INT32_MIN"
  consider (i8) "sint x \<le> INT8_MAX \<and> sint x > INT8_MIN"
    | (i16) "\<not> (sint x \<le> INT8_MAX \<and> sint x > INT8_MIN)" "sint x \<le> INT16_MAX \<and> sint x > INT16_MIN"
    | (i32) "\<not> (sint x \<le> INT8_MAX \<and> sint x > INT8_MIN)" "\<not> (sint x \<le> INT16_MAX \<and> sint x > INT16_MIN)"
    by blast
  then show ?thesis
  proof cases
    case i8
    then have "(scast (ucast x :: 8 word) :: 32 word) = x"
      by (intro scast_ucast_narrow) (simp_all add: INT8_MAX_def INT8_MIN_def)
    with ne i8 show ?thesis
      by (simp add: bcf_enc_int1_def bcf_enc_size_def kputc_def bcf_dec_typed_int1_def
          bcf_dec_int1_def BCF_BT_INT8_def nth_append scast_down8)
  next
    case i16
    then have "(scast (ucast x :: 16 word) :: 32 word) = x"
      by (intro scast_ucast_narrow) (simp_all add: INT16_MAX_def INT16_MIN_def)
    with ne i16 show ?thesis
      by (auto simp add: bcf_enc_int1_def bcf_enc_size_def kputc_def kputsn_def bcf_dec_typed_int1_def
          bcf_dec_int1_def BCF_BT_INT8_def BCF_BT_INT16_def nth_append int16_at_bytes
          bytes_of_int16_def [THEN arg_cong, of length])
  next
    case i32
    with ne show ?thesis
      by (auto simp add: bcf_enc_int1_def bcf_enc_size_def kputc_def kputsn_def bcf_dec_typed_int1_def
          bcf_dec_int1_def BCF_BT_INT8_def BCF_BT_INT16_def BCF_BT_INT32_def nth_append int32_at_bytes
          bytes_of_int32_def [THEN arg_cong, of length])
  qed
qed

theorem bcf_int1_roundtrip_witness:
  "sint (- 32767 :: 32 word) \<noteq> INT32_MIN \<and>
   bcf_dec_typed_int1 (bcf_enc_int1 [] (- 32767) @ []) (length ([] :: kstring)) = Inr (- 32767, 3)"
  using bcf_int1_roundtrip [of "- 32767" "[]" "[]"]
  by (simp add: INT32_MIN_def bcf_enc_int1_def INT8_MAX_def INT8_MIN_def INT16_MAX_def INT16_MIN_def
      bcf_enc_size_def kputc_def kputsn_def bytes_of_int16_def)

section \<open>Sample groups\<close>

lemma bit_group_bit:
  "bit (group_bit n) k \<longleftrightarrow> k < 8 \<and> int k = n mod 32"
proof -
  have "nat (n mod 32) < 32" by simp
  then show ?thesis
    by (auto simp add: group_bit_def bit_simps)
qed

lemma group_bit_values:
  "group_bit 0 = 1 \<and> group_bit 7 = 128 \<and> group_bit 8 = 0 \<and> group_bit 31 = 0 \<and> group_bit 32 = 1"
  by (simp add: group_bit_def)

lemma add_group_core_bit:
  assumes "length (bgt_flag g) = length (f_rows (bgt_f g))"
    and "i < length (f_rows (bgt_f g))"
  shows "bit (bgt_flag (bgt_add_group_core env g n samples expr) ! i) k \<longleftrightarrow>
    bit (bgt_flag g ! i) k
    \<or> (k < 8 \<and> int k = bgt_n_groups g mod 32 \<and> group_selects env g n samples expr i)"
  using assms
  by (auto simp add: bgt_add_group_core_def group_selects_def Let_def bit_simps bit_group_bit)

text \<open>
  C2 (amended).  \<open>bgt_add_group_core\<close> has no failure: it returns the reader with the
  group counter raised by one (the counter being an \<open>int\<close> that has not reached
  \<open>INT32_MAX\<close>).  It ors the low byte of \<open>1<<n_groups\<close> into the mask of every selected
  sample and changes nothing else: bit \<open>k\<close> of the mask of sample \<open>i\<close> is set afterwards
  exactly when it was set before, or \<open>k\<close> is below 8, \<open>k\<close> is \<open>n_groups\<close> modulo 32 and the
  sample is selected.  So with fewer than 8 groups declared the next free bit is set for
  every matching sample; with 8 to 31 declared no mask changes; and from 32 on, where
  the shift count wraps, bit \<open>n_groups mod 32\<close> is set when it is below 8.
\<close>

theorem bgt_add_group_core_masks:
  assumes "length (bgt_flag g) = length (f_rows (bgt_f g))"
    and "i < length (f_rows (bgt_f g))"
    and "0 \<le> bgt_n_groups g" and "bgt_n_groups g < INT32_MAX"
  shows "bgt_n_groups (bgt_add_group_core env g n samples expr) = bgt_n_groups g + 1
    \<and> length (bgt_flag (bgt_add_group_core env g n samples expr)) = length (f_rows (bgt_f g))
    \<and> (bit (bgt_flag (bgt_add_group_core env g n samples expr) ! i) k \<longleftrightarrow>
         bit (bgt_flag g ! i) k
         \<or> (k < 8 \<and> int k = bgt_n_groups g mod 32 \<and> group_selects env g n samples expr i))"
  using assms
  by (auto simp add: bgt_add_group_core_def group_selects_def Let_def bit_simps bit_group_bit)

theorem bgt_add_group_core_masks_witness:
  "length (bgt_flag ex_bgt) = length (f_rows (bgt_f ex_bgt)) \<and> (1 :: nat) < length (f_rows (bgt_f ex_bgt))
   \<and> 0 \<le> bgt_n_groups ex_bgt \<and> bgt_n_groups ex_bgt < INT32_MAX
   \<and> bgt_n_groups (bgt_add_group_core ex_env ex_bgt 1 [''S2''] None) = 1
   \<and> bit (bgt_flag (bgt_add_group_core ex_env ex_bgt 1 [''S2''] None) ! 1) 0
   \<and> \<not> bit (bgt_flag (bgt_add_group_core ex_env ex_bgt 1 [''S2''] None) ! 0) 0"
  using bgt_add_group_core_masks [of ex_bgt 1 ex_env 1 "[''S2'']" None 0]
    bgt_add_group_core_masks [of ex_bgt 0 ex_env 1 "[''S2'']" None 0]
  by (simp add: ex_bgt_def bgt_reader_init_def ex_file_def group_selects_def sample_matches_def
      parse_expr_def BGT_SET_ALL_SAMPLES_def INT32_MAX_def)

lemma add_group_core_n_groups:
  "bgt_n_groups (bgt_add_group_core env g n samples expr) = bgt_n_groups g + 1"
  by (simp add: bgt_add_group_core_def Let_def)

lemma add_group_core_rows:
  "bgt_f (bgt_add_group_core env g n samples expr) = bgt_f g"
  by (simp add: bgt_add_group_core_def Let_def)

lemma add_group_core_length:
  "length (bgt_flag g) = length (f_rows (bgt_f g)) \<Longrightarrow>
   length (bgt_flag (bgt_add_group_core env g n samples expr)) = length (f_rows (bgt_f g))"
  by (simp add: bgt_add_group_core_def Let_def)

lemma add_all_n_groups:
  "bgt_n_groups (((\<lambda>g. bgt_add_group_core env g BGT_SET_ALL_SAMPLES [] None) ^^ k) g) = bgt_n_groups g + int k"
  by (induction k) (simp_all add: add_group_core_n_groups)

lemma add_all_rows:
  "bgt_f (((\<lambda>g. bgt_add_group_core env g BGT_SET_ALL_SAMPLES [] None) ^^ k) g) = bgt_f g"
  by (induction k) (simp_all add: add_group_core_rows)

lemma add_all_length:
  "length (bgt_flag g) = length (f_rows (bgt_f g)) \<Longrightarrow>
   length (bgt_flag (((\<lambda>g. bgt_add_group_core env g BGT_SET_ALL_SAMPLES [] None) ^^ k) g))
     = length (f_rows (bgt_f g))"
  by (induction k) (simp_all add: add_group_core_length add_all_rows)

text \<open>
  C2 as stated fails: with 8 groups declared, one more call returns as every call does,
  and the reader then counts 9 groups; the masks are as before.
\<close>

theorem bgt_add_group_ninth_counterexample:
  "bgt_n_groups ex_bgt8 = 8
   \<and> bgt_n_groups (bgt_add_group_core ex_env ex_bgt8 BGT_SET_ALL_SAMPLES [] None) = 9
   \<and> bgt_flag (bgt_add_group_core ex_env ex_bgt8 BGT_SET_ALL_SAMPLES [] None) = bgt_flag ex_bgt8"
proof -
  have n: "bgt_n_groups ex_bgt8 = 8"
    by (simp add: ex_bgt8_def add_all_n_groups) (simp add: ex_bgt_def bgt_reader_init_def)
  have l: "length (bgt_flag ex_bgt8) = length (f_rows (bgt_f ex_bgt8))"
    by (simp add: ex_bgt8_def add_all_rows add_all_length ex_bgt_def bgt_reader_init_def)
  have b: "group_bit 8 = 0"
    by (simp add: group_bit_def)
  have "map (\<lambda>i. bgt_flag ex_bgt8 ! i OR group_bit 8) [0..<length (f_rows (bgt_f ex_bgt8))] = bgt_flag ex_bgt8"
    by (simp add: b l [symmetric] map_nth)
  with n show ?thesis
    by (simp add: bgt_add_group_core_def Let_def)
qed





section \<open>Reading with an empty sample subset\<close>

lemma bgt_prepare_no_flags:
  assumes "bgt_n_groups g \<noteq> 0"
    and "list_all (\<lambda>i. bgt_flag g ! i = 0) [0..<length (f_rows (bgt_f g))]"
  shows "bgt_n_out (bgt_prepare env g) = 0 \<and> bgt_h_out (bgt_prepare env g) \<noteq> None"
proof -
  from assms(2) have "filter (\<lambda>i. bgt_flag g ! i \<noteq> 0) [0..<length (f_rows (bgt_f g))] = []"
    by (simp add: list_all_iff filter_empty_conv)
  with assms(1) show ?thesis
    by (simp add: bgt_prepare_def Let_def)
qed

text \<open>
  C10.  On a prepared reader (its output header is built) whose output sample subset is
  empty, \<open>bgt_read\<close> returns \<open>-1\<close>, the end-of-file result, and hands back the reader and
  the caller's record as they were: the site stream and the genotype matrix are not
  touched, however many records the stream holds.
\<close>

theorem bgt_read_empty_subset:
  assumes "bgt_h_out g \<noteq> None" and "bgt_n_out g = 0"
  shows "bgt_read env g b = Inr (- 1, g, b)"
  using assms by (auto simp add: bgt_read_def bgt_read_rec_def)

theorem bgt_read_empty_subset_witness:
  "bgt_h_out ex_bgt_empty \<noteq> None \<and> bgt_n_out ex_bgt_empty = 0 \<and> length (bgt_stream ex_bgt_empty) = 3
   \<and> bgt_read ex_env ex_bgt_empty ex_b = Inr (- 1, ex_bgt_empty, ex_b)"
proof -
  have n: "bgt_n_groups (bgt_add_group_core ex_env ex_bgt 1 [''nobody''] None) \<noteq> 0"
    by (simp add: bgt_add_group_core_def Let_def ex_bgt_def bgt_reader_init_def)
  have z: "list_all (\<lambda>i. bgt_flag (bgt_add_group_core ex_env ex_bgt 1 [''nobody''] None) ! i = 0)
      [0..<length (f_rows (bgt_f (bgt_add_group_core ex_env ex_bgt 1 [''nobody''] None)))]"
    by code_simp
  have s: "length (bgt_stream ex_bgt_empty) = 3"
    by (simp add: ex_bgt_empty_def bgt_prepare_def bgt_add_group_core_def Let_def ex_bgt_def
        bgt_reader_init_def)
  from bgt_prepare_no_flags [OF n z, of ex_env]
  have h: "bgt_h_out ex_bgt_empty \<noteq> None" and o: "bgt_n_out ex_bgt_empty = 0"
    by (simp_all add: ex_bgt_empty_def)
  from bgt_read_empty_subset [OF h o, of ex_env ex_b] h o s show ?thesis by simp
qed

section \<open>Genotype bytes\<close>

lemma bgtm_read_core_cases:
  assumes "bgtm_read_core bm b = Inr (ret, bm', b')"
  obtains
    (eof) ch where "bgtm_fill (bm_child bm) = Inr ch" "list_all (\<lambda>c. r_b0 (snd c) = None) ch"
      "ret = - 1" "bm' = bm\<lparr>bm_child := ch\<rparr>" "b' = b"
  | (site) ch b0 max_allele h ch' a where "bgtm_fill (bm_child bm) = Inr ch"
      "\<not> list_all (\<lambda>c. r_b0 (snd c) = None) ch"
      "fold bgtm_pick (map snd ch) (None, 0) = (Some b0, max_allele)" "max_allele \<ge> 2"
      "bm_h_out bm = Some h" "bgtm_gen_a (bgtm_site h b0 max_allele) ch = Inr (ch', a)"
      "int (length (fst a)) = push_bit 1 (bm_n_out bm)"
      "bgtm_finish bm h a (bgtm_site h b0 max_allele) = Inr (ret, b')"
      "bm' = bm\<lparr>bm_child := ch', bm_a := a\<rparr>"
  using assms unfolding bgtm_read_core_def
  by (auto split: sum.splits prod.splits option.splits if_splits)

lemma bgtm_finish_0:
  assumes "bgtm_finish bm h a b = Inr (0, b')" and "bm_flag bm AND BGT_F_NO_GT = 0"
  obtains b3 where "bgt_gen_gt h b3 (bm_n_out bm) a = Inr b'"
  using assms unfolding bgtm_finish_def
  by (auto split: sum.splits prod.splits if_splits)

lemma bgt_gen_gt_Inr:
  assumes "bgt_gen_gt h b m a = Inr b'"
  shows "b_n_sample b' = m mod 2 ^ 24
    \<and> planes_ok a (nat (2 * b_n_sample b'))
    \<and> b_indiv b' = bcf_enc_size (bcf_enc_int1 [] (word_of_int (bcf_id2int h BCF_DT_ID ''GT''))) 2 BCF_BT_INT8
        @ map (\<lambda>i. word_of_int (bgt_bits2gt ! nat (hap_code a i))) [0..<nat (2 * b_n_sample b')]"
  using assms
  by (auto simp add: bgt_gen_gt_def Let_def push_bit_eq_mult mult.commute split: if_splits)

text \<open>
  C4 (amended).  A call of \<open>bgtm_read_core\<close> that returns a site while \<open>NO_GT\<close> is not
  set leaves in the site's FORMAT block the header of the \<open>GT\<close> column (its key, then
  "2 values of type int8 per sample") followed by one byte per output haplotype: the
  entry of the table \<open>bgt_bits2gt\<close> at the two-bit code \<open>plane1<<1 | plane0\<close> of that
  haplotype in the output planes.  The table maps the code 0 (REF) to \<open>1<<1\<close>, 1 (ALT1)
  to \<open>2<<1\<close>, 2 (missing) to \<open>0\<close> and 3 (ALT2) to \<open>3<<1\<close>.
\<close>

theorem bgtm_read_core_gt:
  assumes "bgtm_read_core bm b = Inr (0, bm', b')"
    and "bm_flag bm AND BGT_F_NO_GT = 0"
    and "bm_h_out bm = Some h"
  shows "b_n_sample b' = bm_n_out bm mod 2 ^ 24
    \<and> b_indiv b' = bcf_enc_size (bcf_enc_int1 [] (word_of_int (bcf_id2int h BCF_DT_ID ''GT''))) 2 BCF_BT_INT8
        @ map (\<lambda>i. word_of_int (bgt_bits2gt ! nat (hap_code (bm_a bm') i))) [0..<nat (2 * b_n_sample b')]
    \<and> list_all (\<lambda>i. hap_code (bm_a bm') i < 4) [0..<nat (2 * b_n_sample b')]
    \<and> bgt_bits2gt = [push_bit 1 1, push_bit 1 2, 0, push_bit 1 3]"
  using assms(1)
proof (cases rule: bgtm_read_core_cases)
  case (eof ch)
  then show ?thesis by simp
next
  case (site ch b0 max_allele h' ch' a)
  from site(5) assms(3) have hh: "h' = h" by simp
  from site(8) assms(2) obtain b3 where g: "bgt_gen_gt h b3 (bm_n_out bm) a = Inr b'"
    unfolding hh by (rule bgtm_finish_0)
  from bgt_gen_gt_Inr [OF g] site(9) show ?thesis
    by (auto simp add: planes_ok_def bgt_bits2gt_def)
qed

lemma bgtm_prepare_flag: "bm_flag (bgtm_prepare env bm) = bm_flag bm"
  by (simp add: bgtm_prepare_def Let_def)

lemma bgtm_prepare_h_out: "bm_child bm \<noteq> [] \<Longrightarrow> bm_h_out (bgtm_prepare env bm) \<noteq> None"
  by (simp add: bgtm_prepare_def Let_def)

theorem bgtm_read_core_gt_witness:
  "\<exists>bm' b' h. bgtm_read_core ex_bgtm_prepared ex_b = Inr (0, bm', b')
     \<and> bm_flag ex_bgtm_prepared AND BGT_F_NO_GT = 0 \<and> bm_h_out ex_bgtm_prepared = Some h
     \<and> b_indiv b' = [17, 2, 33, 2, 4, 2, 2, 0, 0, 0, 0]
     \<and> b_indiv b' = bcf_enc_size (bcf_enc_int1 [] (word_of_int (bcf_id2int h BCF_DT_ID ''GT''))) 2 BCF_BT_INT8
          @ map (\<lambda>i. word_of_int (bgt_bits2gt ! nat (hap_code (bm_a bm') i))) [0..<nat (2 * b_n_sample b')]"
proof -
  have "case bgtm_read_core ex_bgtm_prepared ex_b of
      Inr (ret, bm', b') \<Rightarrow> ret = 0 \<and> b_indiv b' = [17, 2, 33, 2, 4, 2, 2, 0, 0, 0, 0]
    | Inl e \<Rightarrow> False"
    by code_simp
  then obtain bm' b' where r: "bgtm_read_core ex_bgtm_prepared ex_b = Inr (0, bm', b')"
    and i: "b_indiv b' = [17, 2, 33, 2, 4, 2, 2, 0, 0, 0, 0]"
    by (cases "bgtm_read_core ex_bgtm_prepared ex_b") auto
  have f: "bm_flag ex_bgtm_prepared AND BGT_F_NO_GT = 0"
    by (simp add: ex_bgtm_prepared_def bgtm_prepare_flag ex_bgtm_def bgtm_reader_init_def)
  have "bm_child ex_bgtm \<noteq> []"
    by (simp add: ex_bgtm_def bgtm_reader_init_def)
  then obtain h where h: "bm_h_out ex_bgtm_prepared = Some h"
    using bgtm_prepare_h_out [of ex_bgtm ex_env] by (auto simp add: ex_bgtm_prepared_def)
  from bgtm_read_core_gt [OF r f h] r f h i show ?thesis
    by blast
qed

text \<open>
  C4 as stated fails: the missing code (plane 1 set, plane 0 clear) is written as the
  byte 0, not as \<open>2<<1\<close>, which is the byte of ALT1.
\<close>

theorem bgt_gen_gt_missing_counterexample:
  "hap_code ([0], [1]) 0 = 2
   \<and> bgt_bits2gt ! nat (hap_code ([0], [1]) 0) = 0
   \<and> bgt_bits2gt ! nat (hap_code ([0], [1]) 0) \<noteq> push_bit 1 2
   \<and> bgt_gen_gt ex_h0 ex_b 1 ([0, 0], [1, 1])
       = Inr (ex_b\<lparr>b_n_fmt := 1, b_n_sample := 1, b_indiv := [17, 2, 33, 0, 0]\<rparr>)"
  by code_simp

section \<open>The two ways of counting per group\<close>

lemma tbl_isI:
  assumes "length t = R" "\<And>r. r < R \<Longrightarrow> length (t ! r) = 4" "\<And>r k. r < R \<Longrightarrow> k < 4 \<Longrightarrow> t ! r ! k = F r k"
  shows "tbl_is t R F"
  using assms by (simp add: tbl_is_def list_all_iff)

lemma tbl_isD:
  assumes "tbl_is t R F"
  shows "length t = R" "r < R \<Longrightarrow> length (t ! r) = 4" "r < R \<Longrightarrow> k < 4 \<Longrightarrow> t ! r ! k = F r k"
  using assms by (simp_all add: tbl_is_def list_all_iff)

lemma tbl_is_unique:
  assumes "tbl_is t R F" "tbl_is t' R F"
  shows "t = t'"
proof (rule nth_equalityI)
  show "length t = length t'" using assms by (simp add: tbl_isD)
next
  fix r assume "r < length t"
  then have r: "r < R" using assms by (simp add: tbl_isD)
  show "t ! r = t' ! r"
  proof (rule nth_equalityI)
    show "length (t ! r) = length (t' ! r)" using assms r by (simp add: tbl_isD)
  next
    fix k assume "k < length (t ! r)"
    then have "k < 4" using assms r by (simp add: tbl_isD)
    then show "t ! r ! k = t' ! r ! k" using assms r by (simp add: tbl_isD)
  qed
qed

lemma tbl_is_replicate: "tbl_is (replicate R (replicate 4 0)) R (\<lambda>r k. 0)"
  by (rule tbl_isI) simp_all

lemma tbl_is_cong:
  assumes "tbl_is t R F" "\<And>r k. r < R \<Longrightarrow> k < 4 \<Longrightarrow> F r k = G r k"
  shows "tbl_is t R G"
  using assms by (simp add: tbl_is_def list_all_iff)

lemma tbl_is_add:
  assumes "tbl_is t R F" "r < R" "k < 4"
  shows "tbl_is (tbl_add t r k v) R (\<lambda>r' k'. F r' k' + (if r' = r \<and> k' = k then v else 0))"
proof (rule tbl_isI)
  show "length (tbl_add t r k v) = R" using assms by (simp add: tbl_add_def tbl_isD)
next
  fix r' assume "r' < R"
  then show "length (tbl_add t r k v ! r') = 4"
    using assms by (cases "r' = r") (simp_all add: tbl_add_def tbl_isD)
next
  fix r' k' :: nat assume "r' < R" "k' < 4"
  then show "tbl_add t r k v ! r' ! k' = F r' k' + (if r' = r \<and> k' = k then v else 0)"
    using assms by (cases "r' = r"; cases "k' = k") (simp_all add: tbl_add_def tbl_isD)
qed

lemma hasbit_bound:
  assumes "0 \<le> x" "x < 256" "x AND push_bit j 1 \<noteq> (0 :: int)"
  shows "j < 8"
proof -
  from assms(3) have b: "bit x j" by (simp add: bit_iff_and_push_bit_not_eq_0)
  from assms(1,2) have "take_bit 8 x = x" by (simp add: take_bit_int_eq_self)
  with b have "bit (take_bit 8 x) j" by simp
  then show ?thesis by (simp add: bit_take_bit_iff)
qed

text \<open>The groups of one haplotype: the inner loop of the first way.\<close>

lemma per_hap_inner:
  assumes "tbl_is g 9 F" "ht < 4" "0 \<le> x" "x < 256"
  shows "tbl_is (fold (\<lambda>j gcnt. if x AND push_bit j 1 \<noteq> (0 :: int) then tbl_add gcnt (j + 1) ht 1 else gcnt) [0..<m] g) 9
           (\<lambda>r k. F r k + (if 1 \<le> r \<and> r - 1 < m \<and> x AND push_bit (r - 1) 1 \<noteq> 0 \<and> k = ht then 1 else 0))"
proof (induction m)
  case 0
  from assms(1) show ?case by simp
next
  case (Suc m)
  show ?case
  proof (cases "x AND push_bit m 1 \<noteq> 0")
    case True
    with assms have "m < 8" by (auto dest: hasbit_bound)
    then have "m + 1 < 9" by simp
    from tbl_is_add [OF Suc this assms(2), of 1] True show ?thesis
      by (auto elim!: tbl_is_cong simp add: less_Suc_eq)
  next
    case False
    with Suc show ?thesis
      by (auto elim!: tbl_is_cong simp add: less_Suc_eq)
  qed
qed

lemma planes_ok_code:
  assumes "planes_ok a n" "i < n"
  shows "nat (hap_code a i) < 4"
proof -
  from assms have "hap_code a i < 4"
    by (simp add: planes_ok_def list_all_iff)
  then show ?thesis by simp
qed

lemma per_hap_tbl:
  assumes "planes_ok a n"
  shows "tbl_is (gcnt_per_hap a grp n ng) 9
           (\<lambda>r k. \<Sum>i<n. if 1 \<le> r \<and> r - 1 < nat ng \<and> uint (grp ! (drop_bit 1 i)) AND push_bit (r - 1) 1 \<noteq> 0
                              \<and> k = nat (hap_code a i) then 1 else 0)"
proof -
  let ?step = "\<lambda>i gcnt.
             (let ht = nat (hap_code a i) in
              if grp ! (drop_bit 1 i) \<noteq> 0 then
                fold (\<lambda>j gcnt. if uint (grp ! (drop_bit 1 i)) AND push_bit j 1 \<noteq> 0
                                then tbl_add gcnt (j + 1) ht 1 else gcnt)
                     [0..<nat ng] gcnt
              else gcnt)"
  let ?ind = "\<lambda>r k i. if 1 \<le> r \<and> r - 1 < nat ng \<and> uint (grp ! (drop_bit 1 i)) AND push_bit (r - 1) 1 \<noteq> 0
                              \<and> k = nat (hap_code a i) then 1 else (0 :: 32 word)"
  have "m \<le> n \<Longrightarrow> tbl_is (fold ?step [0..<m] (replicate 9 (replicate 4 0))) 9 (\<lambda>r k. \<Sum>i<m. ?ind r k i)" for m
  proof (induction m)
    case 0
    show ?case using tbl_is_replicate [of 9] by simp
  next
    case (Suc m)
    then have ih: "tbl_is (fold ?step [0..<m] (replicate 9 (replicate 4 0))) 9 (\<lambda>r k. \<Sum>i<m. ?ind r k i)"
      and m: "m < n" by simp_all
    from planes_ok_code [OF assms m] have ht: "nat (hap_code a m) < 4" .
    have x: "0 \<le> uint (grp ! (drop_bit 1 m))" "uint (grp ! (drop_bit 1 m)) < 256"
      using uint_bounded [of "grp ! (drop_bit 1 m)"] by simp_all
    show ?case
    proof (cases "grp ! (drop_bit 1 m) = 0")
      case True
      with ih show ?thesis by (auto elim!: tbl_is_cong)
    next
      case False
      from per_hap_inner [OF ih ht x, of "nat ng"] False show ?thesis
        by (auto elim!: tbl_is_cong)
    qed
  qed
  from this [of n] show ?thesis
    by (simp add: gcnt_per_hap_def BGT_MAX_GROUPS_def)
qed

lemma gcnt256_tbl:
  assumes "planes_ok a n"
  shows "tbl_is (gcnt256_of a grp n) 256
           (\<lambda>g k. \<Sum>i<n. if g = unat (grp ! (drop_bit 1 i)) \<and> k = nat (hap_code a i) then 1 else 0)"
proof -
  let ?step = "\<lambda>i t. tbl_add t (unat (grp ! (drop_bit 1 i))) (nat (hap_code a i)) 1"
  let ?ind = "\<lambda>g k i. if g = unat (grp ! (drop_bit 1 i)) \<and> k = nat (hap_code a i) then 1 else (0 :: 32 word)"
  have "m \<le> n \<Longrightarrow> tbl_is (fold ?step [0..<m] (replicate 256 (replicate 4 0))) 256 (\<lambda>g k. \<Sum>i<m. ?ind g k i)" for m
  proof (induction m)
    case 0
    show ?case using tbl_is_replicate [of 256] by simp
  next
    case (Suc m)
    then have ih: "tbl_is (fold ?step [0..<m] (replicate 256 (replicate 4 0))) 256 (\<lambda>g k. \<Sum>i<m. ?ind g k i)"
      and m: "m < n" by simp_all
    from planes_ok_code [OF assms m] have ht: "nat (hap_code a m) < 4" .
    have x: "unat (grp ! (drop_bit 1 m)) < 256"
      using unsigned_less [of "grp ! (drop_bit 1 m)", where 'a = nat] by simp
    from tbl_is_add [OF ih x ht, of 1] show ?case
      by (auto elim!: tbl_is_cong)
  qed
  from this [of n] show ?thesis
    by (simp add: gcnt256_of_def)
qed

lemma bucket_row:
  assumes "tbl_is g 9 F" "r0 < 9"
  shows "m \<le> 4 \<Longrightarrow> tbl_is (fold (\<lambda>k gcnt. tbl_add gcnt r0 k (v k)) [0..<m] g) 9
           (\<lambda>r k. F r k + (if r = r0 \<and> k < m then v k else 0))"
proof (induction m)
  case 0
  from assms(1) show ?case by simp
next
  case (Suc m)
  then have ih: "tbl_is (fold (\<lambda>k gcnt. tbl_add gcnt r0 k (v k)) [0..<m] g) 9
           (\<lambda>r k. F r k + (if r = r0 \<and> k < m then v k else 0))" and m: "m < 4" by simp_all
  from tbl_is_add [OF ih assms(2) m, of "v m"] show ?case
    by (auto elim!: tbl_is_cong simp add: less_Suc_eq)
qed

lemma bucket_inner:
  assumes "tbl_is g 9 F" "0 \<le> x" "x < 256"
  shows "tbl_is (fold (\<lambda>j gcnt. if x AND push_bit j 1 \<noteq> (0 :: int)
                              then fold (\<lambda>k gcnt. tbl_add gcnt (j + 1) k (v k)) [0..<4] gcnt
                              else gcnt) [0..<m] g) 9
           (\<lambda>r k. F r k + (if 1 \<le> r \<and> r - 1 < m \<and> x AND push_bit (r - 1) 1 \<noteq> 0 then v k else 0))"
proof (induction m)
  case 0
  from assms(1) show ?case by simp
next
  case (Suc m)
  show ?case
  proof (cases "x AND push_bit m 1 \<noteq> 0")
    case True
    with assms have "m < 8" by (auto dest: hasbit_bound)
    then have "m + 1 < 9" by simp
    from bucket_row [OF Suc this, of 4 v] True show ?thesis
      by (auto elim!: tbl_is_cong simp add: less_Suc_eq)
  next
    case False
    with Suc show ?thesis
      by (auto elim!: tbl_is_cong simp add: less_Suc_eq)
  qed
qed

lemma bucket_outer:
  assumes "tbl_is g 9 F"
  shows "M \<le> 256 \<Longrightarrow> tbl_is (fold (\<lambda>i gcnt.
              fold (\<lambda>j gcnt. if int i AND push_bit j 1 \<noteq> 0
                              then fold (\<lambda>k gcnt. tbl_add gcnt (j + 1) k (G i k)) [0..<4] gcnt
                              else gcnt)
                   [0..<ngn] gcnt) [0..<M] g) 9
           (\<lambda>r k. F r k + (\<Sum>i<M. if 1 \<le> r \<and> r - 1 < ngn \<and> int i AND push_bit (r - 1) 1 \<noteq> 0 then G i k else 0))"
proof (induction M)
  case 0
  from assms show ?case by simp
next
  case (Suc M)
  then have ih: "tbl_is (fold (\<lambda>i gcnt.
              fold (\<lambda>j gcnt. if int i AND push_bit j 1 \<noteq> 0
                              then fold (\<lambda>k gcnt. tbl_add gcnt (j + 1) k (G i k)) [0..<4] gcnt
                              else gcnt)
                   [0..<ngn] gcnt) [0..<M] g) 9
           (\<lambda>r k. F r k + (\<Sum>i<M. if 1 \<le> r \<and> r - 1 < ngn \<and> int i AND push_bit (r - 1) 1 \<noteq> 0 then G i k else 0))"
    and M: "int M < 256" by simp_all
  have M0: "0 \<le> int M" by simp
  from bucket_inner [OF ih M0 M, of "G M" ngn] show ?case
    by (auto elim!: tbl_is_cong simp add: add.assoc)
qed

lemma bucket_sum:
  fixes gr :: "nat \<Rightarrow> 8 word" and code :: "nat \<Rightarrow> nat"
  shows "(\<Sum>g<256. if 1 \<le> r \<and> r - 1 < ngn \<and> int g AND push_bit (r - 1) 1 \<noteq> 0
                  then (\<Sum>i<n. if g = unat (gr i) \<and> k = code i then 1 else 0) else (0 :: 32 word))
       = (\<Sum>i<n. if 1 \<le> r \<and> r - 1 < ngn \<and> uint (gr i) AND push_bit (r - 1) 1 \<noteq> 0 \<and> k = code i
                 then 1 else 0)"
proof -
  define c where "c g \<longleftrightarrow> 1 \<le> r \<and> r - 1 < ngn \<and> int g AND push_bit (r - 1) 1 \<noteq> 0" for g
  have "(\<Sum>g<256. if c g then (\<Sum>i<n. if g = unat (gr i) \<and> k = code i then 1 else 0) else (0 :: 32 word))
      = (\<Sum>g<256. \<Sum>i<n. if g = unat (gr i) then (if c g \<and> k = code i then 1 else 0) else 0)"
  proof (intro sum.cong refl)
    fix g
    show "(if c g then (\<Sum>i<n. if g = unat (gr i) \<and> k = code i then 1 else 0) else (0 :: 32 word))
      = (\<Sum>i<n. if g = unat (gr i) then (if c g \<and> k = code i then 1 else 0) else 0)"
    proof (cases "c g")
      case True
      then show ?thesis by (auto intro!: sum.cong)
    next
      case False
      have "(\<Sum>i<n. if g = unat (gr i) then (if c g \<and> k = code i then 1 else 0) else (0 :: 32 word)) = 0"
        by (rule sum.neutral) (use False in auto)
      with False show ?thesis by simp
    qed
  qed
  also have "\<dots> = (\<Sum>i<n. \<Sum>g<256. if g = unat (gr i) then (if c g \<and> k = code i then 1 else 0) else 0)"
    by (rule sum.swap)
  also have "\<dots> = (\<Sum>i<n. if c (unat (gr i)) \<and> k = code i then 1 else 0)"
  proof (intro sum.cong refl)
    fix i
    have "unat (gr i) < 256"
      using unsigned_less [of "gr i", where 'a = nat] by simp
    then show "(\<Sum>g<256. if g = unat (gr i) then (if c g \<and> k = code i then 1 else 0) else 0)
        = (if c (unat (gr i)) \<and> k = code i then 1 else (0 :: 32 word))"
      by (simp add: sum.delta')
  qed
  finally show ?thesis by (simp add: c_def)
qed

text \<open>
  C8.  For every pair of output planes whose first \<open>n\<close> entries are bits, every group
  mask assignment that covers these \<open>n\<close> haplotypes, and every number of groups, the
  per-group count table of the per-haplotype loop (taken below 1024 haplotypes) equals,
  entry for entry, the table of the 256-by-4 bucketing followed by the fold over the
  group bits (taken from 1024 haplotypes on).
\<close>

theorem gcnt_strategies_agree:
  assumes "planes_ok a n" and "n \<le> 2 * length grp"
  shows "gcnt_per_hap a grp n n_groups = gcnt_bucket a grp n n_groups"
proof (rule tbl_is_unique)
  show "tbl_is (gcnt_per_hap a grp n n_groups) 9
           (\<lambda>r k. \<Sum>i<n. if 1 \<le> r \<and> r - 1 < nat n_groups \<and> uint (grp ! (drop_bit 1 i)) AND push_bit (r - 1) 1 \<noteq> 0
                              \<and> k = nat (hap_code a i) then 1 else 0)"
    by (rule per_hap_tbl [OF assms(1)])
next
  let ?G = "\<lambda>g k. gcnt256_of a grp n ! g ! k"
  have "tbl_is (gcnt_bucket a grp n n_groups) 9
     (\<lambda>r k. 0 + (\<Sum>i<256. if 1 \<le> r \<and> r - 1 < nat n_groups \<and> int i AND push_bit (r - 1) 1 \<noteq> 0 then ?G i k else 0))"
    using bucket_outer [OF tbl_is_replicate [of 9], of 256 ?G "nat n_groups"]
    by (simp add: gcnt_bucket_def BGT_MAX_GROUPS_def Let_def)
  then show "tbl_is (gcnt_bucket a grp n n_groups) 9
           (\<lambda>r k. \<Sum>i<n. if 1 \<le> r \<and> r - 1 < nat n_groups \<and> uint (grp ! (drop_bit 1 i)) AND push_bit (r - 1) 1 \<noteq> 0
                              \<and> k = nat (hap_code a i) then 1 else 0)"
  proof (rule tbl_is_cong)
    fix r k :: nat assume "r < 9" "k < 4"
    have "(\<Sum>i<256. if 1 \<le> r \<and> r - 1 < nat n_groups \<and> int i AND push_bit (r - 1) 1 \<noteq> 0 then ?G i k else 0)
        = (\<Sum>g<256. if 1 \<le> r \<and> r - 1 < nat n_groups \<and> int g AND push_bit (r - 1) 1 \<noteq> 0
                  then (\<Sum>i<n. if g = unat (grp ! (drop_bit 1 i)) \<and> k = nat (hap_code a i) then 1 else 0) else (0 :: 32 word))"
      using tbl_isD(3) [OF gcnt256_tbl [OF assms(1), of grp], of _ k] \<open>k < 4\<close>
      by (intro sum.cong refl) simp
    then show "0 + (\<Sum>i<256. if 1 \<le> r \<and> r - 1 < nat n_groups \<and> int i AND push_bit (r - 1) 1 \<noteq> 0 then ?G i k else 0)
        = (\<Sum>i<n. if 1 \<le> r \<and> r - 1 < nat n_groups \<and> uint (grp ! (drop_bit 1 i)) AND push_bit (r - 1) 1 \<noteq> 0
                              \<and> k = nat (hap_code a i) then 1 else 0)"
      by (simp only: add_0 bucket_sum [of r "nat n_groups" "\<lambda>i. grp ! (drop_bit 1 i)" k "\<lambda>i. nat (hap_code a i)" n])
  qed
qed

theorem gcnt_strategies_agree_witness:
  "planes_ok ([0, 1, 0, 1], [0, 0, 1, 1]) 4 \<and> (4 :: nat) \<le> 2 * length [1 :: 8 word, 3]
   \<and> gcnt_bucket ([0, 1, 0, 1], [0, 0, 1, 1]) [1, 3] 4 2
       = [[0, 0, 0, 0], [1, 1, 1, 1], [0, 0, 1, 1], [0, 0, 0, 0], [0, 0, 0, 0],
          [0, 0, 0, 0], [0, 0, 0, 0], [0, 0, 0, 0], [0, 0, 0, 0]]"
proof -
  have p: "planes_ok ([0, 1, 0, 1], [0, 0, 1, 1]) 4"
    by code_simp
  have l: "(4 :: nat) \<le> 2 * length [1 :: 8 word, 3]"
    by simp
  have e: "gcnt_per_hap ([0, 1, 0, 1], [0, 0, 1, 1]) [1, 3] 4 2
       = [[0, 0, 0, 0], [1, 1, 1, 1], [0, 0, 1, 1], [0, 0, 0, 0], [0, 0, 0, 0],
          [0, 0, 0, 0], [0, 0, 0, 0], [0, 0, 0, 0], [0, 0, 0, 0]]"
    by code_simp
  from gcnt_strategies_agree [OF p l, of 2] p l e show ?thesis
    by simp
qed

section \<open>Merge order\<close>

lemma bgt_read_core0_Inr:
  assumes "bgt_read_core0 g = Inr (ret, g')"
  shows "bgt_n_out g' = bgt_n_out g \<and> bgt_bed g' = bgt_bed g \<and> bgt_bed_excl g' = bgt_bed_excl g
    \<and> (if ret \<ge> 0 then \<exists>x. bgt_stream g = x # bgt_stream g' \<and> bgt_b0 g' = Some x
        else bgt_stream g = [] \<and> g' = g)"
  using assms
  by (auto simp add: bgt_read_core0_def Let_def split: list.splits if_splits)

lemma bgt_read_core_Inr:
  "bgt_read_core g = Inr (ret, g') \<Longrightarrow>
   bgt_n_out g' = bgt_n_out g
    \<and> (if ret \<ge> 0 then \<exists>ys x. bgt_stream g = ys @ x # bgt_stream g' \<and> bgt_b0 g' = Some x
        else bgt_stream g' = [])"
proof (induction g arbitrary: ret g' rule: bgt_read_core.induct)
  case (1 bgt)
  show ?case
  proof (cases "bgt_bed bgt")
    case None
    with "1.prems" have "bgt_read_core0 bgt = Inr (ret, g')"
      by (simp add: bgt_read_core.simps [of bgt])
    from bgt_read_core0_Inr [OF this] show ?thesis
      by (auto split: if_splits)
  next
    case (Some bed)
    from "1.prems" Some obtain r0 g0 where c0: "bgt_read_core0 bgt = Inr (r0, g0)"
      by (auto simp add: bgt_read_core.simps [of bgt] split: sum.splits)
    note f0 = bgt_read_core0_Inr [OF c0]
    show ?thesis
    proof (cases "r0 \<ge> 0")
      case False
      with "1.prems" Some c0 f0 show ?thesis
        by (auto simp add: bgt_read_core.simps [of bgt])
    next
      case True
      with f0 obtain x where x: "bgt_stream bgt = x # bgt_stream g0" "bgt_b0 g0 = Some x"
        by auto
      from "1.prems" Some c0 True obtain key beg en where ba: "bed_args g0 = Inr (key, beg, en)"
        by (auto simp add: bgt_read_core.simps [of bgt] split: sum.splits)
      show ?thesis
      proof (cases "(bgt_bed_excl g0 \<noteq> 0 \<and> bed key beg en) \<or> (\<not> bgt_bed_excl g0 \<noteq> 0 \<and> \<not> bed key beg en)")
        case False
        with "1.prems" Some c0 True ba have "ret = r0" "g' = g0"
          by (auto simp add: bgt_read_core.simps [of bgt])
        with True x f0 show ?thesis by auto
      next
        case skip: True
        with "1.prems" Some c0 True ba have rec: "bgt_read_core g0 = Inr (ret, g')"
          by (auto simp add: bgt_read_core.simps [of bgt])
        have "bgt_n_out g' = bgt_n_out g0
          \<and> (if ret \<ge> 0 then \<exists>ys x. bgt_stream g0 = ys @ x # bgt_stream g' \<and> bgt_b0 g' = Some x
              else bgt_stream g' = [])"
        proof (cases "bgt_bed_excl g0 \<noteq> 0 \<and> bed key beg en")
          case A: True
          show ?thesis
            by (rule "1.IH"(1) [OF Some c0 refl True ba refl refl refl A rec])
        next
          case nA: False
          with skip have B: "\<not> bgt_bed_excl g0 \<noteq> 0 \<and> \<not> bed key beg en" by blast
          show ?thesis
            by (rule "1.IH"(2) [OF Some c0 refl True ba refl refl refl nA B rec])
        qed
        with f0 x show ?thesis
          by (auto intro: exI [of _ "x # _"])
      qed
    qed
  qed
qed

lemma bgt_read_rec_filled:
  assumes "bgt_read_rec g = Inr (row, g', r')" and "r_b0 r = None"
  shows "filled (g, r) (g', r')"
proof (cases "bgt_n_out g = 0")
  case True
  with assms show ?thesis
    by (auto simp add: bgt_read_rec_def filled_def child_pending_def slot_ok_def)
next
  case False
  with assms(1) obtain row1 g1 where c: "bgt_read_core g = Inr (row1, g1)"
    by (auto simp add: bgt_read_rec_def split: sum.splits)
  note f = bgt_read_core_Inr [OF c]
  show ?thesis
  proof (cases "row1 < 0")
    case True
    with assms False c f show ?thesis
      by (auto simp add: bgt_read_rec_def filled_def child_pending_def slot_ok_def)
  next
    case nn: False
    with f obtain ys x where x: "bgt_stream g = ys @ x # bgt_stream g1" "bgt_b0 g1 = Some x"
      by auto
    from assms(1) False c nn have "bgt_stream g' = bgt_stream g1" "r_b0 r' = bgt_b0 g1"
      "bgt_n_out g' = bgt_n_out g1"
      by (auto simp add: bgt_read_rec_def split: prod.splits)
    with x f False assms(2) show ?thesis
      by (auto simp add: filled_def child_pending_def slot_ok_def)
  qed
qed

lemma filled_refl: "slot_ok c \<Longrightarrow> r_b0 (snd c) \<noteq> None \<Longrightarrow> filled c c"
  by (auto simp add: filled_def)

lemma bgtm_fill1_filled:
  assumes "bgtm_fill1 c = Inr c'"
  shows "filled c c'"
proof (cases "r_b0 (snd c) = None")
  case True
  with assms obtain row g' r' where "bgt_read_rec (fst c) = Inr (row, g', r')" "c' = (g', r')"
    by (cases c) (auto simp add: bgtm_fill1_def split: sum.splits)
  with bgt_read_rec_filled [OF this(1) True] show ?thesis
    by (cases c) simp
next
  case False
  with assms have "c' = c"
    by (cases c) (auto simp add: bgtm_fill1_def)
  with False show ?thesis
    by (auto simp add: filled_def)
qed

lemma bgtm_fill_filled:
  "bgtm_fill cs = Inr cs' \<Longrightarrow> list_all2 filled cs cs'"
proof (induction cs arbitrary: cs')
  case Nil
  then show ?case by simp
next
  case (Cons c cs)
  then show ?case
    by (auto split: sum.splits dest: bgtm_fill1_filled)
qed

lemma bcfcmp_simps:
  "bcfcmp a b > 0 \<longleftrightarrow> site_key b < site_key a"
  "bcfcmp a b = 0 \<longleftrightarrow> site_key a = site_key b"
  by (auto simp add: bcfcmp_def)

lemma bgtm_pick_fold:
  "fold bgtm_pick rs (bo, m) = (bo', m') \<Longrightarrow>
   (case bo' of
      None \<Rightarrow> bo = None \<and> (\<forall>r\<in>set rs. r_b0 r = None)
    | Some b0 \<Rightarrow>
        (bo = Some b0 \<or> (\<exists>r\<in>set rs. r_b0 r = Some b0))
        \<and> (\<forall>x. bo = Some x \<longrightarrow> site_key b0 \<le> site_key x)
        \<and> (\<forall>r\<in>set rs. \<forall>x. r_b0 r = Some x \<longrightarrow> site_key b0 \<le> site_key x))"
proof (induction rs arbitrary: bo m)
  case Nil
  then show ?case by (auto split: option.splits)
next
  case (Cons r rs)
  obtain bo1 m1 where p: "bgtm_pick r (bo, m) = (bo1, m1)"
    by (cases "bgtm_pick r (bo, m)")
  with Cons.prems have f: "fold bgtm_pick rs (bo1, m1) = (bo', m')" by simp
  note ih = Cons.IH [OF f]
  show ?case
  proof (cases "r_b0 r")
    case None
    with p have "bo1 = bo" by (simp add: bgtm_pick_def)
    with ih None show ?thesis by (auto split: option.splits)
  next
    case (Some rb)
    show ?thesis
    proof (cases bo)
      case None
      with p Some have "bo1 = Some rb" by (simp add: bgtm_pick_def)
      with ih None Some show ?thesis by (auto split: option.splits)
    next
      case (Some b)
      show ?thesis
      proof (cases "site_key rb < site_key b")
        case True
        with p \<open>r_b0 r = Some rb\<close> Some have "bo1 = Some rb"
          by (simp add: bgtm_pick_def Let_def bcfcmp_simps)
        with ih \<open>r_b0 r = Some rb\<close> Some True show ?thesis
          by (fastforce split: option.splits)
      next
        case False
        with p \<open>r_b0 r = Some rb\<close> Some have "bo1 = Some b"
          by (auto simp add: bgtm_pick_def Let_def bcfcmp_simps split: if_splits)
        with ih \<open>r_b0 r = Some rb\<close> Some False show ?thesis
          by (fastforce split: option.splits)
      qed
    qed
  qed
qed

lemma bgtm_gen_a1_cleared:
  "bgtm_gen_a1 b c = Inr (c', a) \<Longrightarrow> c' = cleared b c"
  by (cases c) (auto simp add: bgtm_gen_a1_def cleared_def Let_def bcfcmp_simps
      split: if_splits option.splits)

lemma bgtm_gen_a_cleared:
  "bgtm_gen_a b cs = Inr (cs', a) \<Longrightarrow> cs' = map (cleared b) cs"
  by (induction cs arbitrary: cs' a) (auto split: sum.splits dest: bgtm_gen_a1_cleared)

lemma site_key_append_info [simp]:
  "site_key (bcf_append_info_ints h b key n val) = site_key b"
  by (simp add: bcf_append_info_ints_def site_key_def)

lemma site_key_group_info [simp]:
  "site_key (bgtm_group_info h gcnt i b) = site_key b"
  by (simp add: bgtm_group_info_def Let_def)

lemma site_key_fold_group_info [simp]:
  "site_key (fold (bgtm_group_info h gcnt) is b) = site_key b"
  by (induction "is" arbitrary: b) simp_all

lemma bgtm_counts_key:
  "bgtm_counts bm h a b = Inr (b', d) \<Longrightarrow> site_key b' = site_key b"
  by (auto simp add: bgtm_counts_def Let_def split: if_splits)

lemma bgt_gen_gt_key:
  "bgt_gen_gt h b m a = Inr b' \<Longrightarrow> site_key b' = site_key b"
  by (auto simp add: bgt_gen_gt_def Let_def site_key_def split: if_splits)

lemma bgtm_finish_key:
  assumes "bgtm_finish bm h a b = Inr (ret, b')"
  shows "site_key b' = site_key b \<and> (ret = 0 \<or> ret = 1)"
proof -
  from assms obtain b3 d where c: "(if bm_flag bm AND BGT_F_SET_AC \<noteq> 0 \<or> bm_filter_func bm \<noteq> None
            then bgtm_counts bm h a b else Inr (b, False)) = Inr (b3, d)"
    by (auto simp add: bgtm_finish_def split: sum.splits)
  then have k3: "site_key b3 = site_key b"
    by (auto split: if_splits dest: bgtm_counts_key)
  from assms c have "(ret = 1 \<and> b' = b3) \<or> (ret = 0 \<and> b' = b3) \<or> (ret = 0 \<and> bgt_gen_gt h b3 (bm_n_out bm) a = Inr b')"
    by (auto simp add: bgtm_finish_def split: sum.splits if_splits)
  with k3 show ?thesis
    by (auto dest: bgt_gen_gt_key)
qed

lemma bgtm_site_key:
  assumes "2 \<le> n_allele b0"
  shows "site_key (bgtm_site h b0 m) = site_key b0"
proof -
  from assms obtain r a rest where "b_allele b0 = r # a # rest"
    by (cases "b_allele b0"; cases "tl (b_allele b0)") (auto simp add: n_allele_def)
  then have "site_key (snd (bcfcpy_min b0 alt2)) = site_key b0" for alt2
    by (simp add: bcfcpy_min_def Let_def site_key_def)
  then have k: "site_key (snd (bcfcpy_min b0 (if m > 2 then Some ''<M>'' else None))) = site_key b0" .
  obtain l b1 where c: "bcfcpy_min b0 (if m > 2 then Some ''<M>'' else None) = (l, b1)"
    by (cases "bcfcpy_min b0 (if m > 2 then Some ''<M>'' else None)")
  with k have "site_key b1 = site_key b0" by simp
  with c show ?thesis
    by (simp add: bgtm_site_def)
qed

lemma filled_child_inv:
  assumes "filled c c'" "child_inv L c"
  shows "child_inv L c' \<and> settled c' \<and> length (child_pending c') \<le> length (child_pending c)"
proof -
  from assms(1) obtain ys where ys: "child_pending c = ys @ child_pending c'"
    and n: "bgt_n_out (fst c') = bgt_n_out (fst c)"
    by (auto simp add: filled_def)
  from assms ys n show ?thesis
    by (auto simp add: filled_def child_inv_def settled_def sorted_wrt_append split: if_splits)
qed

lemma filled_list:
  assumes "list_all2 filled cs cs'" "list_all (child_inv L) cs"
  shows "list_all (child_inv L) cs' \<and> list_all settled cs' \<and> total_pending cs' \<le> total_pending cs"
  using assms
proof (induction cs cs' rule: list_all2_induct)
  case Nil
  then show ?case by (simp add: total_pending_def)
next
  case (Cons c cs c' cs')
  from filled_child_inv [OF Cons.hyps(1), of L] Cons show ?case
    by (auto simp add: total_pending_def)
qed

lemma cleared_child_inv:
  assumes inv: "child_inv L c" and s: "settled c"
    and min: "\<And>x. r_b0 (snd c) = Some x \<Longrightarrow> site_key b \<le> site_key x"
  shows "child_inv (Some (site_key b)) (cleared b c)
    \<and> length (child_pending (cleared b c)) \<le> length (child_pending c)
    \<and> (if (case r_b0 (snd c) of None \<Rightarrow> False | Some x \<Rightarrow> site_key b = site_key x)
        then length (child_pending (cleared b c)) < length (child_pending c) else True)"
proof (cases "bgt_n_out (fst c) = 0")
  case True
  with inv show ?thesis
    by (auto simp add: child_inv_def cleared_def slot_ok_def)
next
  case act: False
  show ?thesis
  proof (cases "r_b0 (snd c)")
    case None
    with act s inv show ?thesis
      by (auto simp add: child_inv_def cleared_def slot_ok_def settled_def)
  next
    case (Some rb)
    from inv act Some have srt: "sorted_wrt site_lt (rb # bgt_stream (fst c))"
      and al: "list_all (\<lambda>x. 2 \<le> n_allele x) (rb # bgt_stream (fst c))"
      by (auto simp add: child_inv_def child_pending_def list_all_iff)
    from min [OF Some] have le: "site_key b \<le> site_key rb" .
    from srt have gt: "\<forall>x\<in>set (bgt_stream (fst c)). site_key rb < site_key x"
      and srt': "sorted_wrt site_lt (bgt_stream (fst c))"
      by (auto simp add: site_lt_def)
    show ?thesis
    proof (cases "site_key b = site_key rb")
      case True
      with act Some have cl: "cleared b c = (fst c, (snd c)\<lparr>r_b0 := None\<rparr>)"
        by (simp add: cleared_def)
      from gt srt' al True act Some show ?thesis
        unfolding cl
        by (auto simp add: child_inv_def child_pending_def slot_ok_def bound_ok_def list_all_iff)
    next
      case False
      with act Some have cl: "cleared b c = c"
        by (simp add: cleared_def)
      from False le have "site_key b < site_key rb" by simp
      with gt have "\<forall>x\<in>set (rb # bgt_stream (fst c)). site_key b < site_key x"
        by auto
      with srt al False act Some show ?thesis
        unfolding cl
        by (auto simp add: child_inv_def child_pending_def slot_ok_def bound_ok_def list_all_iff)
    qed
  qed
qed

lemma cleared_list:
  assumes "list_all (child_inv L) cs" "list_all settled cs"
    and "\<forall>c\<in>set cs. \<forall>x. r_b0 (snd c) = Some x \<longrightarrow> site_key b \<le> site_key x"
  shows "list_all (child_inv (Some (site_key b))) (map (cleared b) cs)
    \<and> total_pending (map (cleared b) cs) \<le> total_pending cs
    \<and> (if \<exists>c\<in>set cs. case r_b0 (snd c) of None \<Rightarrow> False | Some x \<Rightarrow> site_key b = site_key x
        then total_pending (map (cleared b) cs) < total_pending cs else True)"
  using assms
proof (induction cs)
  case Nil
  then show ?case by (simp add: total_pending_def)
next
  case (Cons c cs)
  have m: "\<And>x. r_b0 (snd c) = Some x \<Longrightarrow> site_key b \<le> site_key x"
    using Cons.prems(3) by auto
  from Cons.prems have i: "child_inv L c" and s: "settled c" by simp_all
  note c1 = cleared_child_inv [OF i s m]
  have ih: "list_all (child_inv (Some (site_key b))) (map (cleared b) cs)
    \<and> total_pending (map (cleared b) cs) \<le> total_pending cs
    \<and> (if \<exists>c\<in>set cs. case r_b0 (snd c) of None \<Rightarrow> False | Some x \<Rightarrow> site_key b = site_key x
        then total_pending (map (cleared b) cs) < total_pending cs else True)"
    using Cons.prems by (intro Cons.IH) auto
  from c1 ih show ?case
    by (auto simp add: total_pending_def split: if_splits)
qed

lemma bound_ok_trans: "bound_ok L k \<Longrightarrow> k < k' \<Longrightarrow> bound_ok L k'"
  by (auto simp add: bound_ok_def split: option.splits)

lemma bgtm_read_core_step:
  assumes inv: "list_all (child_inv L) (bm_child bm)"
    and core: "bgtm_read_core bm b = Inr (ret, bm', b')" and ret: "ret \<noteq> - 1"
  shows "bound_ok L (site_key b')
    \<and> list_all (child_inv (Some (site_key b'))) (bm_child bm')
    \<and> total_pending (bm_child bm') < total_pending (bm_child bm)
    \<and> bm_h_out bm' = bm_h_out bm \<and> bm_h_out bm \<noteq> None \<and> (ret = 0 \<or> ret = 1)"
  using core
proof (cases rule: bgtm_read_core_cases)
  case (eof ch)
  with ret show ?thesis by simp
next
  case (site ch b0 max_allele h ch' a)
  note fl = filled_list [OF bgtm_fill_filled [OF site(1)] inv]
  from bgtm_pick_fold [OF site(3)]
  have mem: "\<exists>r\<in>set (map snd ch). r_b0 r = Some b0"
    and min: "\<forall>r\<in>set (map snd ch). \<forall>x. r_b0 r = Some x \<longrightarrow> site_key b0 \<le> site_key x"
    by auto
  from mem obtain c0 where c0: "c0 \<in> set ch" "r_b0 (snd c0) = Some b0"
    by auto
  with fl have "child_inv L c0"
    by (simp add: list_all_iff)
  with c0(2) have b0: "bound_ok L (site_key b0)" "2 \<le> n_allele b0"
    by (auto simp add: child_inv_def slot_ok_def child_pending_def)
  let ?b = "bgtm_site h b0 max_allele"
  from bgtm_site_key [OF b0(2)] have k: "site_key ?b = site_key b0" .
  from min have min': "\<forall>c\<in>set ch. \<forall>x. r_b0 (snd c) = Some x \<longrightarrow> site_key ?b \<le> site_key x"
    unfolding k by auto
  from fl have i: "list_all (child_inv L) ch" and s: "list_all settled ch" by simp_all
  note cl = cleared_list [OF i s min']
  from c0 k have "\<exists>c\<in>set ch. case r_b0 (snd c) of None \<Rightarrow> False | Some x \<Rightarrow> site_key ?b = site_key x"
    by (auto intro!: bexI [of _ c0])
  with cl have lt: "total_pending (map (cleared ?b) ch) < total_pending ch"
    by simp
  from bgtm_gen_a_cleared [OF site(6)] have ch': "ch' = map (cleared ?b) ch" .
  from bgtm_finish_key [OF site(8)] k have kb: "site_key b' = site_key b0" and r01: "ret = 0 \<or> ret = 1"
    by simp_all
  from cl fl lt b0(1) show ?thesis
    unfolding site(9) kb [symmetric] ch' [symmetric] k
    using site(5) r01 kb k ch' by simp
qed

lemma bgtm_read_loop_inv:
  assumes "list_all (child_inv L) (bm_child bm)"
    and "bgtm_read_loop bm b = Some (Inr (0, bm', b'))"
  shows "bound_ok L (site_key b')
    \<and> list_all (child_inv (Some (site_key b'))) (bm_child bm')
    \<and> bm_h_out bm' \<noteq> None"
  using assms
proof (induction "total_pending (bm_child bm)" arbitrary: bm b L rule: less_induct)
  case less
  from less.prems(2) obtain ret bm1 b1 where core: "bgtm_read_core bm b = Inr (ret, bm1, b1)"
    by (subst (asm) bgtm_read_loop.simps) (auto split: sum.splits)
  show ?case
  proof (cases "ret > 0")
    case True
    with less.prems(2) core have loop: "bgtm_read_loop bm1 b1 = Some (Inr (0, bm', b'))"
      by (subst (asm) bgtm_read_loop.simps) simp
    from True have "ret \<noteq> - 1" by simp
    note st = bgtm_read_core_step [OF less.prems(1) core this]
    from st have lt: "total_pending (bm_child bm1) < total_pending (bm_child bm)"
      and i1: "list_all (child_inv (Some (site_key b1))) (bm_child bm1)" by simp_all
    from less.hyps [OF lt i1 loop]
    have "bound_ok (Some (site_key b1)) (site_key b')"
      and r: "list_all (child_inv (Some (site_key b'))) (bm_child bm')" "bm_h_out bm' \<noteq> None"
      by simp_all
    then have "site_key b1 < site_key b'" by (simp add: bound_ok_def)
    with st have "bound_ok L (site_key b')"
      by (auto intro: bound_ok_trans)
    with r show ?thesis by simp
  next
    case False
    with less.prems(2) core have e: "ret = 0" "bm1 = bm'" "b1 = b'"
      by (subst (asm) bgtm_read_loop.simps, simp)+
    then have "ret \<noteq> - 1" by simp
    from bgtm_read_core_step [OF less.prems(1) core this] e show ?thesis
      by simp
  qed
qed

lemma bgtm_outputs_prepared:
  assumes "list_all (child_inv L) (bm_child bm)" and "bm_h_out bm \<noteq> None"
  shows "sorted_wrt site_lt (bgtm_outputs env k bm b)
    \<and> list_all (\<lambda>x. bound_ok L (site_key x)) (bgtm_outputs env k bm b)"
  using assms
proof (induction k arbitrary: bm b L)
  case 0
  then show ?case by simp
next
  case (Suc k)
  from Suc.prems(2) have rd: "bgtm_read env bm b = bgtm_read_loop bm b"
    by (auto simp add: bgtm_read_def)
  show ?case
  proof (cases "\<exists>bm' b'. bgtm_read_loop bm b = Some (Inr (0, bm', b'))")
    case False
    then have "bgtm_outputs env (Suc k) bm b = []"
      by (auto simp add: rd split: option.splits sum.splits)
    then show ?thesis by simp
  next
    case True
    then obtain bm' b' where loop: "bgtm_read_loop bm b = Some (Inr (0, bm', b'))"
      by blast
    then have out: "bgtm_outputs env (Suc k) bm b = b' # bgtm_outputs env k bm' b'"
      by (simp add: rd)
    note li = bgtm_read_loop_inv [OF Suc.prems(1) loop]
    from li have i: "list_all (child_inv (Some (site_key b'))) (bm_child bm')" and h: "bm_h_out bm' \<noteq> None"
      and bo: "bound_ok L (site_key b')"
      by simp_all
    note ih = Suc.IH [OF i h, of b']
    from ih have gt: "\<forall>x\<in>set (bgtm_outputs env k bm' b'). site_key b' < site_key x"
      by (simp add: list_all_iff bound_ok_def)
    with bo have "\<forall>x\<in>set (bgtm_outputs env k bm' b'). bound_ok L (site_key x)"
      by (auto intro: bound_ok_trans)
    with ih gt bo show ?thesis
      unfolding out by (simp add: list_all_iff site_lt_def)
  qed
qed

lemma bgtm_read_loop_returns:
  assumes "list_all (child_inv L) (bm_child bm)"
  shows "\<exists>res. bgtm_read_loop bm b = Some res"
  using assms
proof (induction "total_pending (bm_child bm)" arbitrary: bm b L rule: less_induct)
  case less
  show ?case
  proof (cases "bgtm_read_core bm b")
    case (Inl e)
    then show ?thesis
      by (subst bgtm_read_loop.simps) simp
  next
    case (Inr t)
    then obtain ret bm1 b1 where core: "bgtm_read_core bm b = Inr (ret, bm1, b1)"
      by (cases t) auto
    show ?thesis
    proof (cases "ret > 0")
      case True
      then have "ret \<noteq> - 1" by simp
      from bgtm_read_core_step [OF less.prems core this]
      have "total_pending (bm_child bm1) < total_pending (bm_child bm)"
        and "list_all (child_inv (Some (site_key b1))) (bm_child bm1)" by simp_all
      from less.hyps [OF this, of b1] obtain res where "bgtm_read_loop bm1 b1 = Some res"
        by blast
      with core True show ?thesis
        by (subst bgtm_read_loop.simps) simp
    next
      case False
      with core show ?thesis
        by (subst bgtm_read_loop.simps) simp
    qed
  qed
qed

lemma bgt_prepare_stream: "bgt_stream (bgt_prepare env g) = bgt_stream g"
  by (simp add: bgt_prepare_def bgt_add_group_core_def Let_def)

lemma bgtm_prepare_child:
  "bm_child (bgtm_prepare env bm) = (if bm_child bm = [] then [] else map (\<lambda>(g, r). (bgt_prepare env g, r)) (bm_child bm))"
  by (simp add: bgtm_prepare_def Let_def)

text \<open>
  C1 (amended).  Let every child's site stream be strictly increasing by the key
  \<open>(rid, pos, rlen, REF, ALT[0])\<close>, every site have a REF and at least one ALT, and the
  slots be as \<open>bgtm_reader_init\<close> or earlier reads leave them.  Then the sites emitted
  by any number of successive successful calls of \<open>bgtm_read\<close> are strictly increasing by
  the key: no ties.  And no call runs forever: its loop ends, with a site, with the end
  of the streams, or where the code stops at a failed \<open>assert\<close> or reads out of bounds
  (a result \<open>Inl\<close>).
\<close>

theorem bgtm_outputs_increasing:
  assumes "bgtm_ready bm" and "bgtm_streams_sorted bm"
  shows "(\<exists>res. bgtm_read env bm b = Some res) \<and> sorted_wrt site_lt (bgtm_outputs env k bm b)"
proof -
  define bm0 where "bm0 = (if bm_h_out bm = None then bgtm_prepare env bm else bm)"
  have inv: "list_all (child_inv None) (bm_child bm0)"
  proof (cases "bm_h_out bm = None")
    case True
    have "child_inv None (bgt_prepare env g, r)" if c: "(g, r) \<in> set (bm_child bm)" for g r
    proof -
      from c assms(1) True have e: "r_b0 r = None"
        by (fastforce simp add: bgtm_ready_def list_all_iff)
      from c assms(2) have "sorted_wrt site_lt (child_pending (g, r))"
        "list_all (\<lambda>x. 2 \<le> n_allele x) (child_pending (g, r))"
        by (fastforce simp add: bgtm_streams_sorted_def list_all_iff)+
      with e show ?thesis
        by (simp add: child_inv_def slot_ok_def child_pending_def bound_ok_def bgt_prepare_stream)
    qed
    with True show ?thesis
      by (auto simp add: bm0_def bgtm_prepare_child list_all_iff)
  next
    case False
    with assms show ?thesis
      by (auto simp add: bm0_def bgtm_ready_def bgtm_streams_sorted_def list_all_iff
          child_inv_def slot_ok_def bound_ok_def)
  qed
  have rd: "bgtm_read env bm b = bgtm_read_loop bm0 b"
    by (simp add: bgtm_read_def bm0_def)
  from bgtm_read_loop_returns [OF inv, of b] have ret: "\<exists>res. bgtm_read env bm b = Some res"
    by (simp add: rd)
  have "sorted_wrt site_lt (bgtm_outputs env k bm b)"
  proof (cases k)
    case 0
    then show ?thesis by simp
  next
    case (Suc k')
    show ?thesis
    proof (cases "\<exists>bm' b'. bgtm_read_loop bm0 b = Some (Inr (0, bm', b'))")
      case False
    then have "bgtm_outputs env (Suc k') bm b = []"
      by (auto simp add: rd split: option.splits sum.splits)
    with Suc show ?thesis by simp
  next
    case True
    then obtain bm' b' where loop: "bgtm_read_loop bm0 b = Some (Inr (0, bm', b'))"
      by blast
    then have out: "bgtm_outputs env (Suc k') bm b = b' # bgtm_outputs env k' bm' b'"
      by (simp add: rd)
    note li = bgtm_read_loop_inv [OF inv loop]
    from li have i: "list_all (child_inv (Some (site_key b'))) (bm_child bm')" and h: "bm_h_out bm' \<noteq> None"
      by simp_all
    from bgtm_outputs_prepared [OF i h, of env k' b'] show ?thesis
      unfolding Suc out by (simp add: list_all_iff site_lt_def bound_ok_def)
    qed
  qed
  with ret show ?thesis by simp
qed

theorem bgtm_outputs_increasing_witness:
  "bgtm_ready ex_bgtm \<and> bgtm_streams_sorted ex_bgtm
   \<and> (\<exists>res. bgtm_read ex_env ex_bgtm ex_b = Some res)
   \<and> sorted_wrt site_lt (bgtm_outputs ex_env 4 ex_bgtm ex_b)
   \<and> map site_key (bgtm_outputs ex_env 4 ex_bgtm ex_b)
       = [(0, 100, 1, ''A'', ''T''), (0, 200, 1, ''C'', ''G''), (0, 300, 1, ''G'', ''A''),
          (0, 400, 1, ''T'', ''C'')]"
proof -
  have r: "bgtm_ready ex_bgtm"
    by (simp add: bgtm_ready_def ex_bgtm_def bgtm_reader_init_def)
  have s: "bgtm_streams_sorted ex_bgtm"
    by code_simp
  have o: "map site_key (bgtm_outputs ex_env 4 ex_bgtm ex_b)
       = [(0, 100, 1, ''A'', ''T''), (0, 200, 1, ''C'', ''G''), (0, 300, 1, ''G'', ''A''),
          (0, 400, 1, ''T'', ''C'')]"
    by code_simp
  from bgtm_outputs_increasing [OF r s, of ex_env ex_b 4] r s o show ?thesis
    by simp
qed

text \<open>
  C1 as stated fails: a reader over one file whose stream holds the site 1:200 C>G twice
  emits it twice, a tie.
\<close>

theorem bgtm_outputs_tie_counterexample:
  "map site_key (bgtm_outputs ex_env 3 ex_bgtm_dup ex_b)
     = [(0, 100, 1, ''A'', ''T''), (0, 200, 1, ''C'', ''G''), (0, 200, 1, ''C'', ''G'')]
   \<and> \<not> sorted_wrt site_lt (bgtm_outputs ex_env 3 ex_bgtm_dup ex_b)"
proof -
  have o: "map site_key (bgtm_outputs ex_env 3 ex_bgtm_dup ex_b)
     = [(0, 100, 1, ''A'', ''T''), (0, 200, 1, ''C'', ''G''), (0, 200, 1, ''C'', ''G'')]"
    by code_simp
  have "\<not> sorted_wrt (<) (map site_key (bgtm_outputs ex_env 3 ex_bgtm_dup ex_b))"
    unfolding o by simp
  then have "\<not> sorted_wrt site_lt (bgtm_outputs ex_env 3 ex_bgtm_dup ex_b)"
    by (simp add: sorted_wrt_map site_lt_def [abs_def])
  with o show ?thesis by simp
qed

section \<open>Atomizer\<close>

text \<open>
  C3 (amended).  In the CIGAR walk, a \<open>D\<close> operation of length \<open>L\<close> reached at cursors
  \<open>x > 0\<close> and \<open>y > 0\<close>, with the deleted bases inside REF and \<open>y\<close> inside the ALT, appends
  one atom with anchor position \<open>pos + x - 1\<close>, \<open>rlen = L + 1\<close>, \<open>ref\<close> the \<open>L + 1\<close>
  characters of REF from \<open>x - 1\<close> on, and \<open>alt\<close> the single character \<open>ALT[y - 1]\<close> of the
  ALT allele; it advances \<open>x\<close> by \<open>L\<close>.  (\<open>ALT[y - 1]\<close> is \<open>REF[x - 1]\<close> when the two alleles
  agree on the base before the deletion.)
\<close>

theorem cigar_step_deletion:
  assumes "x > 0" and "y > 0" and "0 \<le> l" and "x + l \<le> int (length ref)" and "y \<le> int (length alt)"
  shows "cigar_step b i ref alt (CHR ''D'') l (x, y, a)
    = Inr (x + l, y,
        a @ [\<lparr>at_rid = b_rid b, at_pos = b_pos b + x - 1, at_rlen = l + 1, at_anum = i,
              at_ref = take (nat (l + 1)) (drop (nat (x - 1)) ref),
              at_alt = [alt ! nat (y - 1)], at_gt = []\<rparr>])"
proof -
  from assms have t: "take (Suc 0) (drop (nat (y - 1)) alt) = [alt ! nat (y - 1)]"
    by (simp add: take_Suc_conv_app_nth hd_drop_conv_nth take_Suc)
  from assms show ?thesis
    by (simp add: cigar_step_def c_ptr_def bcf_add_atom_def Let_def t)
qed

theorem cigar_step_deletion_witness:
  "(1 :: int) > 0 \<and> (3 :: int) \<ge> 0 \<and> (1 :: int) + 3 \<le> int (length ''ACGT'') \<and> (1 :: int) \<le> int (length ''A'')
   \<and> cigar_step (ex_site_gt 10 ''ACGT'' ''A'') 1 ''ACGT'' ''A'' (CHR ''D'') 3 (1, 1, [])
     = Inr (4, 1, [\<lparr>at_rid = 0, at_pos = 10, at_rlen = 4, at_anum = 1,
                    at_ref = ''ACGT'', at_alt = ''A'', at_gt = []\<rparr>])"
  using cigar_step_deletion [of 1 1 3 "''ACGT''" "''A''" "ex_site_gt 10 ''ACGT'' ''A''" 1 "[]"]
  by (simp add: ex_site_gt_def)

text \<open>
  C3 as stated fails: for REF \<open>ACGT\<close> and ALT \<open>T\<close> the walk over the CIGAR \<open>1M3D\<close>, which
  the atomizer makes up for this pair, emits the deletion atom with \<open>alt = T\<close>, the
  first character of the ALT, and not \<open>A\<close>, the character \<open>REF[x - 1]\<close>.
\<close>

theorem cigar_walk_deletion_counterexample:
  "gen_cigar 4 1 = ''1M3D''
   \<and> cigar_walk (ex_site_gt 10 ''ACGT'' ''T'') 1 ''ACGT'' ''T'' ''1M3D'' (0, 0, [])
     = Inr (4, 1, [\<lparr>at_rid = 0, at_pos = 10, at_rlen = 1, at_anum = 1,
                    at_ref = ''A'', at_alt = ''T'', at_gt = []\<rparr>,
                   \<lparr>at_rid = 0, at_pos = 10, at_rlen = 4, at_anum = 1,
                    at_ref = ''ACGT'', at_alt = ''T'', at_gt = []\<rparr>])
   \<and> ''T'' \<noteq> [''ACGT'' ! 0]"
  by code_simp

text \<open>
  C6 fails on the code.  For the site \<open>A\<close> to \<open>CGT\<close> the atomizer emits two atoms of ALT 1,
  the substitution \<open>A\<close> to \<open>C\<close> and the insertion \<open>A\<close> to \<open>CGT\<close>, which overlap.  The
  haplotype that carries ALT 1 gets the code 3 (overlap) for the first atom and 1 (alt)
  for the second, although ALT 1 is in the run of both; the haplotype with REF gets 0.
\<close>

theorem bcf_atomize_overlap_same_alt:
  "bcf_atomize ex_h0 (ex_site_gt 7 ''A'' ''CGT'') []
     = Inr [\<lparr>at_rid = 0, at_pos = 7, at_rlen = 1, at_anum = 1, at_ref = ''A'', at_alt = ''C'',
             at_gt = [3, 0]\<rparr>,
            \<lparr>at_rid = 0, at_pos = 7, at_rlen = 1, at_anum = 1, at_ref = ''A'', at_alt = ''CGT'',
             at_gt = [1, 0]\<rparr>]"
  by code_simp

section \<open>Allele shorthand\<close>

lemma of_char_digit_char: "d < 10 \<Longrightarrow> (of_char (digit_char d) :: nat) = 48 + d"
  by (simp add: digit_char_def)

lemma isdigit_digit_char: "d < 10 \<Longrightarrow> c_isdigit (digit_char d)"
  by (simp add: c_isdigit_def of_char_digit_char)

lemma digit_val_digit_char: "d < 10 \<Longrightarrow> digit_val (digit_char d) = int d"
  by (simp add: digit_val_def of_char_digit_char)

lemma dec_nat_digits: "list_all c_isdigit (dec_nat n) \<and> dec_nat n \<noteq> []"
proof (induction n rule: dec_nat.induct)
  case (1 n)
  show ?case
  proof (cases "n < 10")
    case True
    then show ?thesis
      by (subst (1 2) dec_nat.simps) (simp add: isdigit_digit_char)
  next
    case False
    with 1 show ?thesis
      by (subst (1 2) dec_nat.simps) (simp add: isdigit_digit_char)
  qed
qed

lemma dec_value_snoc: "dec_value (ds @ [c]) = 10 * dec_value ds + digit_val c"
  by (simp add: dec_value_def)

lemma dec_value_dec_nat: "dec_value (dec_nat n) = int n"
proof (induction n rule: dec_nat.induct)
  case (1 n)
  show ?case
  proof (cases "n < 10")
    case True
    then show ?thesis
      by (subst dec_nat.simps) (simp add: dec_value_def digit_val_digit_char)
  next
    case False
    with 1 have "dec_value (dec_nat (n div 10)) = int (n div 10)" by simp
    moreover have "10 * int (n div 10) + int (n mod 10) = int n"
      by presburger
    ultimately show ?thesis using False
      by (subst dec_nat.simps) (simp add: dec_value_snoc digit_val_digit_char)
  qed
qed

lemma isdigit_not_space: "c_isdigit c \<Longrightarrow> \<not> c_isspace c"
  by (auto simp add: c_isdigit_def c_isspace_def)

lemma isdigit_not_alpha: "c_isdigit c \<Longrightarrow> \<not> c_isalpha c"
  by (auto simp add: c_isdigit_def c_isalpha_def)

lemma isdigit_not_sign: "c_isdigit c \<Longrightarrow> c \<noteq> CHR ''-'' \<and> c \<noteq> CHR ''+'' \<and> c \<noteq> CHR '':''"
  by (auto simp add: c_isdigit_def)

lemma isalpha_not_colon: "c_isalpha c \<Longrightarrow> c \<noteq> CHR '':''"
  by (auto simp add: c_isalpha_def)

lemma strtol_digits:
  assumes "list_all c_isdigit ds" "ds \<noteq> []" "\<not> c_isdigit c"
  shows "strtol (ds @ c # t) = (clamp_long (dec_value ds), length ds)"
proof -
  from assms obtain d ds' where ds: "ds = d # ds'" and d: "c_isdigit d"
    by (cases ds) auto
  from d have ws: "takeWhile c_isspace (ds @ c # t) = []" "dropWhile c_isspace (ds @ c # t) = ds @ c # t"
    by (simp_all add: ds isdigit_not_space)
  from assms have tw: "takeWhile c_isdigit (ds @ c # t) = ds"
    by (simp add: takeWhile_append2 list_all_iff)
  from d assms(2) show ?thesis
    unfolding strtol_def ws
    by (simp add: Let_def ds isdigit_not_sign) (use tw ds in simp)
qed

lemma of_char_toupper:
  "(of_char (c_toupper c) :: nat)
     = (if 97 \<le> (of_char c :: nat) \<and> (of_char c :: nat) \<le> 122 then of_char c - 32 else of_char c)"
  by (auto simp add: c_toupper_def)

lemma toupper_eq_alpha:
  assumes "c_isalpha c" "c_toupper c = c_toupper r"
  shows "c_isalpha r"
proof -
  from assms(2) have "(of_char (c_toupper c) :: nat) = of_char (c_toupper r)" by simp
  with assms(1) show ?thesis
    by (auto simp add: of_char_toupper c_isalpha_def split: if_splits)
qed

lemma toupper_alpha_nonalpha:
  assumes "c_isalpha r" "\<not> c_isalpha c"
  shows "c_toupper r \<noteq> c_toupper c"
  using assms toupper_eq_alpha [of r c] by auto

lemma ltrim_le: "ltrim alt ref \<le> length (takeWhile c_isalpha ref)"
  by (induction alt ref rule: ltrim.induct) (auto dest: toupper_eq_alpha)

lemma ltrim_le_alt: "ltrim alt ref \<le> length alt"
  by (induction alt ref rule: ltrim.induct) auto

lemma ltrim_stop:
  "drop (ltrim alt ref) alt = [] \<or> drop (ltrim alt ref) ref = []
   \<or> \<not> (c_isalpha (hd (drop (ltrim alt ref) alt))
         \<and> c_toupper (hd (drop (ltrim alt ref) alt)) = c_toupper (hd (drop (ltrim alt ref) ref)))"
  by (induction alt ref rule: ltrim.induct) auto

lemma rtrim_le: "rtrim ref alt \<le> length ref \<and> rtrim ref alt \<le> length alt"
  by (induction ref alt rule: rtrim.induct) auto

lemma rtrim_stop:
  "drop (rtrim ref alt) ref = [] \<or> drop (rtrim ref alt) alt = []
   \<or> \<not> (c_isalpha (hd (drop (rtrim ref alt) ref))
         \<and> c_toupper (hd (drop (rtrim ref alt) ref)) = c_toupper (hd (drop (rtrim ref alt) alt)))"
  by (induction ref alt rule: rtrim.induct) auto

lemma ltrim_0:
  "alt = [] \<or> ref = [] \<or> \<not> (c_isalpha (hd alt) \<and> c_toupper (hd alt) = c_toupper (hd ref))
   \<Longrightarrow> ltrim alt ref = 0"
  by (cases alt; cases ref) auto

lemma rtrim_0:
  "ref = [] \<or> alt = [] \<or> \<not> (c_isalpha (hd ref) \<and> c_toupper (hd ref) = c_toupper (hd alt))
   \<Longrightarrow> rtrim ref alt = 0"
  by (cases alt; cases ref) auto

text \<open>What trimming leaves of a REF literal \<open>run\<close> and an ALT.\<close>

lemma trim_result:
  fixes run rest alt :: string
  assumes run: "list_all c_isalpha run"
    and rest: "rest = [] \<or> \<not> c_isalpha (hd rest)"
    and off: "off = ltrim alt (run @ rest)"
    and off2: "off2 = rtrim (rev (drop off run)) (rev (drop off alt))"
    and r: "r = take (length (drop off run) - off2) (drop off run)"
    and t: "t = take (length (drop off alt) - off2) (drop off alt)"
  shows "al_trimmed r t \<and> list_all c_isalpha r
    \<and> int (length r) = int (length run) - int off - int off2"
proof -
  define ref' where "ref' = drop off run"
  define alt' where "alt' = drop off alt"
  have r': "r = take (length ref' - off2) ref'" and t': "t = take (length alt' - off2) alt'"
    and off2': "off2 = rtrim (rev ref') (rev alt')"
    by (simp_all add: r t off2 ref'_def alt'_def)
  from rest run have tw: "takeWhile c_isalpha (run @ rest) = run"
    by (cases rest) (auto simp add: takeWhile_append2 list_all_iff)
  from ltrim_le [of alt "run @ rest"] tw have offle: "off \<le> length run"
    by (simp add: off)
  from rtrim_le [of "rev ref'" "rev alt'"] have off2le: "off2 \<le> length ref'" "off2 \<le> length alt'"
    by (simp_all add: off2')
  from offle off2le have len: "int (length r) = int (length run) - int off - int off2"
    by (simp add: r' ref'_def)
  have "set r \<subseteq> set run"
    unfolding r' ref'_def by (meson set_take_subset set_drop_subset subset_trans)
  with run have alr: "list_all c_isalpha r"
    by (auto simp add: list_all_iff)
  have tr: "al_trimmed r t"
  proof (cases "r = [] \<or> t = []")
    case True
    then show ?thesis by (auto simp add: al_trimmed_def)
  next
    case False
    then have ne: "r \<noteq> []" "t \<noteq> []" by simp_all
    then have ne': "ref' \<noteq> []" "alt' \<noteq> []" by (auto simp add: r' t')
    from ne off2le have hr: "hd r = hd ref'" and ht: "hd t = hd alt'"
      by (auto simp add: r' t' hd_take)
    from ne' have offlt: "off < length run" by (simp add: ref'_def)
    then have hd1: "hd (drop off (run @ rest)) = hd ref'"
      by (simp add: ref'_def hd_drop_conv_nth nth_append)
    from offlt run have a1: "c_isalpha (hd ref')"
      by (simp add: ref'_def hd_drop_conv_nth list_all_length)
    have st: "drop off alt = [] \<or> drop off (run @ rest) = []
       \<or> \<not> (c_isalpha (hd (drop off alt)) \<and> c_toupper (hd (drop off alt)) = c_toupper (hd (drop off (run @ rest))))"
      unfolding off by (rule ltrim_stop)
    from offlt have "drop off (run @ rest) \<noteq> []" by simp
    with st ne'(2) have "\<not> (c_isalpha (hd alt') \<and> c_toupper (hd alt') = c_toupper (hd ref'))"
      unfolding hd1 alt'_def by blast
    with a1 have L: "c_toupper (hd ref') \<noteq> c_toupper (hd alt')"
      using toupper_alpha_nonalpha [of "hd ref'" "hd alt'"] by metis
    from off2le have dr: "drop off2 (rev ref') = rev r" "drop off2 (rev alt') = rev t"
      by (simp_all add: r' t' rev_take)
    from alr ne have a2: "c_isalpha (last r)"
      by (simp add: list_all_iff)
    have st2: "drop off2 (rev ref') = [] \<or> drop off2 (rev alt') = []
       \<or> \<not> (c_isalpha (hd (drop off2 (rev ref')))
         \<and> c_toupper (hd (drop off2 (rev ref'))) = c_toupper (hd (drop off2 (rev alt'))))"
      unfolding off2' by (rule rtrim_stop)
    from st2 ne a2 have R: "c_toupper (last r) \<noteq> c_toupper (last t)"
      unfolding dr by (simp add: hd_rev)
    from L R hr ht show ?thesis
      by (simp add: al_trimmed_def)
  qed
  with alr len show ?thesis by simp
qed

lemma first_char_Cons: "first_char s = c \<Longrightarrow> c \<noteq> CHR 0x00 \<Longrightarrow> \<exists>t. s = c # t"
  by (cases s) (auto simp add: first_char_def)

lemma first_char_hd: "first_char (c # t) = c"
  by (simp add: first_char_def)

lemma int_of_long_id: "- 2147483648 \<le> v \<Longrightarrow> v \<le> 2147483647 \<Longrightarrow> int_of_long v = v"
  by (simp add: int_of_long_def sint_sbintrunc' signed_take_bit_int_eq_self)

lemma strtol_digit_start:
  assumes "c_isdigit (first_char p)"
  shows "strtol p = (clamp_long (dec_value (takeWhile c_isdigit p)), length (takeWhile c_isdigit p))"
proof -
  from assms obtain d p' where p: "p = d # p'" and d: "c_isdigit d"
    by (cases p) (auto simp add: first_char_def c_isdigit_def)
  from d have ws: "takeWhile c_isspace p = []" "dropWhile c_isspace p = p"
    by (simp_all add: p isdigit_not_space)
  from d show ?thesis
    unfolding strtol_def ws
    by (simp add: Let_def p isdigit_not_sign)
qed

lemma ltrim_common:
  "map c_toupper (take (ltrim alt ref) alt) = map c_toupper (take (ltrim alt ref) ref)"
  by (induction alt ref rule: ltrim.induct) auto

lemma rtrim_common:
  "map c_toupper (take (rtrim ref alt) ref) = map c_toupper (take (rtrim ref alt) alt)"
  by (induction ref alt rule: rtrim.induct) auto

text \<open>Two strings that differ at an offset share no longer prefix.\<close>

lemma common_prefix_bound:
  assumes "p @ x # u = p2 @ v" and "p' @ y # u' = p2' @ v'"
    and "length p = length p'" and "map f p2 = map f p2'" and "f x \<noteq> f y"
  shows "length p2 \<le> length p"
proof (rule ccontr)
  assume "\<not> length p2 \<le> length p"
  then have lt: "length p < length p2" by simp
  from assms(4) have l2: "length p2 = length p2'"
    by (rule map_eq_imp_length_eq)
  have "(p @ x # u) ! length p = x" by simp
  with assms(1) lt have x: "x = p2 ! length p"
    by (simp add: nth_append)
  have "(p' @ y # u') ! length p' = y" by simp
  with assms(2,3) lt l2 have y: "y = p2' ! length p"
    by (simp add: nth_append)
  from lt have "f x = map f p2 ! length p"
    by (simp add: x)
  moreover from lt l2 have "map f p2' ! length p = f y"
    by (simp add: y)
  ultimately show False
    using assms(4,5) by simp
qed

text \<open>
  A trimmed pair is the shortest: no other way of taking a shared prefix and a shared
  suffix off the same REF and ALT leaves less.
\<close>

lemma trimmed_shortest:
  assumes tr: "al_trimmed r t"
    and ref: "p @ r @ q = p2 @ r2 @ q2" and alt: "p' @ t @ q' = p2' @ t2 @ q2'"
    and pp: "map c_toupper p = map c_toupper p'" and qq: "map c_toupper q = map c_toupper q'"
    and pp2: "map c_toupper p2 = map c_toupper p2'" and qq2: "map c_toupper q2 = map c_toupper q2'"
  shows "length r \<le> length r2 \<and> length t \<le> length t2"
proof -
  note lp = map_eq_imp_length_eq [OF pp] and lq = map_eq_imp_length_eq [OF qq]
    and lp2 = map_eq_imp_length_eq [OF pp2] and lq2 = map_eq_imp_length_eq [OF qq2]
  from ref have lr: "length p + length r + length q = length p2 + length r2 + length q2"
    by (metis length_append add.assoc)
  from alt have la: "length p' + length t + length q' = length p2' + length t2 + length q2'"
    by (metis length_append add.assoc)
  have key: "length p2 + length q2 \<le> length p + length q"
  proof (cases "r = [] \<or> t = []")
    case True
    with lr la lp lq lp2 lq2 show ?thesis by auto
  next
    case False
    then obtain x r' y t' where r: "r = x # r'" and t: "t = y # t'"
      by (cases r; cases t) auto
    from False tr have d: "c_toupper (hd r) \<noteq> c_toupper (hd t)" "c_toupper (last r) \<noteq> c_toupper (last t)"
      by (simp_all add: al_trimmed_def)
    have "p @ x # (r' @ q) = p2 @ (r2 @ q2)" "p' @ y # (t' @ q') = p2' @ (t2 @ q2')"
      using ref alt by (simp_all add: r t)
    from common_prefix_bound [OF this lp pp2] d(1) have a: "length p2 \<le> length p"
      by (simp add: r t)
    from False obtain rb tb where rl: "r = rb @ [last r]" and tl: "t = tb @ [last t]"
      by (metis append_butlast_last_id)
    have "rev q @ last r # (rev rb @ rev p) = rev q2 @ (rev r2 @ rev p2)"
      using arg_cong [OF ref, of rev] by (subst (asm) rl) simp
    moreover have "rev q' @ last t # (rev tb @ rev p') = rev q2' @ (rev t2 @ rev p2')"
      using arg_cong [OF alt, of rev] by (subst (asm) tl) simp
    moreover have "length (rev q) = length (rev q')" using lq by simp
    moreover have "map c_toupper (rev q2) = map c_toupper (rev q2')"
      using qq2 by (simp add: rev_map [symmetric])
    ultimately have "length (rev q2) \<le> length (rev q)"
      using d(2) by (rule common_prefix_bound)
    with a show ?thesis by simp
  qed
  from key lr have "length r \<le> length r2" by simp
  moreover from key la lp lq lp2 lq2 have "length t \<le> length t2" by simp
  ultimately show ?thesis by simp
qed

text \<open>What an accepted shorthand with a REF literal is made of, read off the parser.\<close>

lemma al_parse_core_inv:
  assumes acc: "al_parse_core al = (0, a, Some r)"
    and p2: "p2 = tl (dropWhile (\<lambda>c. c \<noteq> CHR '':'') al)"
    and p4: "p4 = tl (drop (snd (strtol p2)) p2)"
    and alt: "alt = tl (dropWhile c_isalpha p4)"
    and off: "off = ltrim alt p4"
    and off2: "off2 = rtrim (rev (drop off (takeWhile c_isalpha p4))) (rev (drop off alt))"
  shows "dropWhile (\<lambda>c. c \<noteq> CHR '':'') al \<noteq> []"
    and "c_isdigit (first_char p2)"
    and "first_char (drop (snd (strtol p2)) p2) = CHR '':''"
    and "c_isalpha (first_char p4)"
    and "first_char (dropWhile c_isalpha p4) = CHR '':''"
    and "al_chr a = takeWhile (\<lambda>c. c \<noteq> CHR '':'') al"
    and "al_pos a = int_of_long (int_of_long (fst (strtol p2) - 1) + int off)"
    and "al_rlen a = int_of_long (int_of_long (int_of_long (int (length (takeWhile c_isalpha p4))) - int off) - int off2)"
    and "al_alt a = Some (take (length (drop off alt) - off2) (drop off alt))"
    and "r = take (length (drop off (takeWhile c_isalpha p4)) - off2) (drop off (takeWhile c_isalpha p4))"
  using acc unfolding al_parse_core_def Let_def p2 p4 alt off off2
  by (auto split: if_splits)

lemma al_reparse:
  assumes chr: "CHR '':'' \<notin> set chr"
    and pos: "- 1 \<le> pos" "pos \<le> 2147483647"
    and r: "r \<noteq> []" "list_all c_isalpha r" "int (length r) \<le> 2147483647"
    and tr: "al_trimmed r t"
  shows "al_parse_core (chr @ '':'' @ dec_int (pos + 1) @ '':'' @ r @ '':'' @ t)
    = (0, \<lparr>al_chr = chr, al_pos = pos, al_rlen = int (length r), al_alt = Some t\<rparr>, Some r)"
proof -
  define n where "n = nat (pos + 1)"
  define p4 where "p4 = r @ CHR '':'' # t"
  define p2 where "p2 = dec_nat n @ CHR '':'' # p4"
  from pos have n: "int n = pos + 1" and di: "dec_int (pos + 1) = dec_nat n"
    by (simp_all add: n_def dec_int_def)
  have s: "chr @ '':'' @ dec_int (pos + 1) @ '':'' @ r @ '':'' @ t = chr @ CHR '':'' # p2"
    by (simp add: di p2_def p4_def)
  from chr have tw1: "takeWhile (\<lambda>c. c \<noteq> CHR '':'') (chr @ CHR '':'' # p2) = chr"
    and dw1: "dropWhile (\<lambda>c. c \<noteq> CHR '':'') (chr @ CHR '':'' # p2) = CHR '':'' # p2"
    by (auto simp add: takeWhile_tail dropWhile_append3)
  from dec_nat_digits [of n] obtain d ds where dn: "dec_nat n = d # ds" and d: "c_isdigit d"
    by (cases "dec_nat n") auto
  have fc2: "c_isdigit (first_char p2)"
    by (simp add: p2_def dn first_char_def d)
  have nd: "\<not> c_isdigit (CHR '':'')"
    by (simp add: c_isdigit_def)
  from dec_nat_digits [of n] have "strtol (dec_nat n @ CHR '':'' # p4)
      = (clamp_long (dec_value (dec_nat n)), length (dec_nat n))"
    by (intro strtol_digits) (simp_all add: nd)
  then have st2: "strtol p2 = (clamp_long (int n), length (dec_nat n))"
    by (simp add: p2_def dec_value_dec_nat)
  from pos n have cl: "clamp_long (int n) = int n"
    by (simp add: clamp_long_def)
  from pos n have il: "int_of_long (int n - 1) = pos"
    by (simp add: int_of_long_id)
  from pos have ip: "int_of_long pos = pos"
    by (simp add: int_of_long_id)
  from r(3) have ir: "int_of_long (int (length r)) = int (length r)"
    by (simp add: int_of_long_id)
  have p3: "drop (length (dec_nat n)) p2 = CHR '':'' # p4"
    by (simp add: p2_def)
  from r obtain r0 rs where rr: "r = r0 # rs" and r0: "c_isalpha r0"
    by (cases r) auto
  have fc4: "first_char p4 = r0"
    by (simp add: p4_def rr first_char_def)
  from r0 have nd4: "\<not> c_isdigit r0"
    by (auto dest: isdigit_not_alpha)
  have nc: "\<not> c_isalpha (CHR '':'')"
    by (simp add: c_isalpha_def)
  from r(2) nc have tw4: "takeWhile c_isalpha p4 = r" and dw4: "dropWhile c_isalpha p4 = CHR '':'' # t"
    unfolding p4_def by (simp_all add: list_all_iff)
  from tr r(1) have l0: "ltrim t p4 = 0"
    by (intro ltrim_0) (auto simp add: al_trimmed_def p4_def rr)
  from tr r(1) have r0': "rtrim (rev r) (rev t) = 0"
    by (intro rtrim_0) (auto simp add: al_trimmed_def hd_rev)
  show ?thesis
    unfolding s al_parse_core_def
    by (simp add: Let_def tw1 dw1 fc2 st2 cl il ip ir p3 fc4 nd4 r0 tw4 dw4 l0 r0' first_char_hd)
qed

lemma int_of_long_range: "- 2147483648 \<le> int_of_long v \<and> int_of_long v \<le> 2147483647"
proof -
  have "- (2 ^ (LENGTH(32) - 1)) \<le> sint (word_of_int v :: 32 word)"
    by (rule sint_ge)
  moreover have "sint (word_of_int v :: 32 word) < 2 ^ (LENGTH(32) - 1)"
    by (rule sint_lt)
  ultimately show ?thesis
    by (simp add: int_of_long_def)
qed

text \<open>
  C9 (amended).  Let the parser accept a shorthand with a REF literal, of a length that
  an \<open>int\<close> holds.  Then the shorthand is \<open>chr:P:REF:ALT\<close>, with digits \<open>P\<close> and letters
  \<open>REF\<close>, and the result is its shortest equivalent allele: \<open>REF\<close> is \<open>p r q\<close> and \<open>ALT\<close> is
  \<open>p' t q'\<close>, where \<open>p\<close> and \<open>p'\<close>, and \<open>q\<close> and \<open>q'\<close>, are equal up to case; the result has
  the \<open>chr\<close> of the input, the position \<open>P - 1\<close> moved on by the length of \<open>p\<close> (in 32-bit
  arithmetic), \<open>rlen\<close> the length of \<open>r\<close>, and \<open>t\<close> as its \<open>alt\<close>; \<open>r\<close> and \<open>t\<close> are fully
  left- and right-trimmed; and no other way of taking a shared prefix and a shared
  suffix off \<open>REF\<close> and \<open>ALT\<close> leaves a shorter REF or ALT.  When the REF \<open>r\<close> that is left
  is not empty and the position is not below \<open>-1\<close>, parsing the shorthand
  \<open>chr:(pos+1):r:t\<close> of the result returns 0 and the same \<open>chr\<close>, \<open>pos\<close>, \<open>rlen\<close> and \<open>alt\<close>.
\<close>

theorem bgt_al_parse_shorthand:
  assumes acc: "al_parse_core al = (0, a, Some r)" and len: "int (length al) \<le> INT32_MAX"
  shows "(\<exists>chr ds ref alt p q p' q' t.
        al = chr @ '':'' @ ds @ '':'' @ ref @ '':'' @ alt
      \<and> CHR '':'' \<notin> set chr \<and> ds \<noteq> [] \<and> list_all c_isdigit ds
      \<and> ref \<noteq> [] \<and> list_all c_isalpha ref
      \<and> ref = p @ r @ q \<and> alt = p' @ t @ q'
      \<and> map c_toupper p = map c_toupper p' \<and> map c_toupper q = map c_toupper q'
      \<and> al_chr a = chr
      \<and> al_pos a = int_of_long (int_of_long (clamp_long (dec_value ds) - 1) + int (length p))
      \<and> al_rlen a = int (length r) \<and> al_alt a = Some t
      \<and> al_trimmed r t
      \<and> (\<forall>p2 r2 q2 p2' t2 q2'.
            ref = p2 @ r2 @ q2 \<and> alt = p2' @ t2 @ q2'
            \<and> map c_toupper p2 = map c_toupper p2' \<and> map c_toupper q2 = map c_toupper q2'
            \<longrightarrow> length r \<le> length r2 \<and> length t \<le> length t2))
    \<and> (r \<noteq> [] \<and> - 1 \<le> al_pos a \<longrightarrow> bgt_al_parse (al_shorthand a r) = (0, a))"
proof -
  define chr where "chr = takeWhile (\<lambda>c. c \<noteq> CHR '':'') al"
  define p2 where "p2 = tl (dropWhile (\<lambda>c. c \<noteq> CHR '':'') al)"
  define ds where "ds = takeWhile c_isdigit p2"
  define p4 where "p4 = tl (drop (snd (strtol p2)) p2)"
  define ref where "ref = takeWhile c_isalpha p4"
  define alt where "alt = tl (dropWhile c_isalpha p4)"
  define off where "off = ltrim alt p4"
  define off2 where "off2 = rtrim (rev (drop off (takeWhile c_isalpha p4))) (rev (drop off alt))"
  define p where "p = take off ref"
  define p' where "p' = take off alt"
  define t where "t = take (length (drop off alt) - off2) (drop off alt)"
  define q where "q = drop (length (drop off ref) - off2) (drop off ref)"
  define q' where "q' = drop (length (drop off alt) - off2) (drop off alt)"
  note inv = al_parse_core_inv [OF acc p2_def p4_def alt_def off_def off2_def]
  from inv(1) have "hd (dropWhile (\<lambda>c. c \<noteq> CHR '':'') al) = CHR '':''"
    using hd_dropWhile [of "\<lambda>c. c \<noteq> CHR '':''" al] by simp
  with inv(1) have dw: "dropWhile (\<lambda>c. c \<noteq> CHR '':'') al = CHR '':'' # p2"
    by (cases "dropWhile (\<lambda>c. c \<noteq> CHR '':'') al") (simp_all add: p2_def)
  have al1: "al = chr @ CHR '':'' # p2"
    using takeWhile_dropWhile_id [of "\<lambda>c. c \<noteq> CHR '':''" al] by (simp add: chr_def dw)
  have chr: "CHR '':'' \<notin> set chr"
    by (auto simp add: chr_def dest: set_takeWhileD)
  note st = strtol_digit_start [OF inv(2), folded ds_def]
  from inv(2) have dsne: "ds \<noteq> []"
    by (cases p2) (auto simp add: ds_def first_char_def c_isdigit_def)
  have dsd: "list_all c_isdigit ds"
    by (auto simp add: ds_def list_all_iff dest: set_takeWhileD)
  have "drop (snd (strtol p2)) p2 = dropWhile c_isdigit p2"
    by (simp add: st ds_def dropWhile_eq_drop)
  with inv(3) first_char_Cons [of "dropWhile c_isdigit p2" "CHR '':''"]
  have dw2: "dropWhile c_isdigit p2 = CHR '':'' # p4"
    by (auto simp add: p4_def)
  have p2': "p2 = ds @ CHR '':'' # p4"
    using takeWhile_dropWhile_id [of c_isdigit p2] by (simp add: ds_def dw2)
  from inv(4) have refne: "ref \<noteq> []"
    by (cases p4) (auto simp add: ref_def first_char_def c_isalpha_def)
  have refa: "list_all c_isalpha ref"
    by (auto simp add: ref_def list_all_iff dest: set_takeWhileD)
  from inv(5) first_char_Cons [of "dropWhile c_isalpha p4" "CHR '':''"]
  have dw4: "dropWhile c_isalpha p4 = CHR '':'' # alt"
    by (auto simp add: alt_def)
  have p4': "p4 = ref @ CHR '':'' # alt"
    using takeWhile_dropWhile_id [of c_isalpha p4] by (simp add: ref_def dw4)
  have al: "al = chr @ '':'' @ ds @ '':'' @ ref @ '':'' @ alt"
    by (simp add: al1 p2' p4' [symmetric])
  from ltrim_le [of alt p4] have offr: "off \<le> length ref"
    by (simp add: off_def ref_def)
  from ltrim_le_alt [of alt p4] have offa: "off \<le> length alt"
    by (simp add: off_def)
  have off2': "off2 = rtrim (rev (drop off ref)) (rev (drop off alt))"
    by (simp add: off2_def ref_def)
  from rtrim_le [of "rev (drop off ref)" "rev (drop off alt)"]
  have o2r: "off2 \<le> length (drop off ref)" and o2a: "off2 \<le> length (drop off alt)"
    by (simp_all add: off2')
  from inv(10) have r: "r = take (length (drop off ref) - off2) (drop off ref)"
    by (simp add: ref_def)
  have refd: "ref = p @ r @ q"
    unfolding p_def r q_def by (simp only: append_take_drop_id)
  have altd: "alt = p' @ t @ q'"
    unfolding p'_def t_def q'_def by (simp only: append_take_drop_id)
  have "map c_toupper (take off alt) = map c_toupper (take off p4)"
    unfolding off_def by (rule ltrim_common)
  moreover from offr have "take off p4 = take off ref"
    by (subst p4') simp
  ultimately have pp: "map c_toupper p = map c_toupper p'"
    by (simp add: p_def p'_def)
  have q1: "q = rev (take off2 (rev (drop off ref)))"
    unfolding q_def by (simp add: take_rev)
  have q2: "q' = rev (take off2 (rev (drop off alt)))"
    unfolding q'_def by (simp add: take_rev)
  have "map c_toupper (take off2 (rev (drop off ref))) = map c_toupper (take off2 (rev (drop off alt)))"
    unfolding off2' by (rule rtrim_common)
  then have qq: "map c_toupper q = map c_toupper q'"
    unfolding q1 q2 rev_map [symmetric] by (rule arg_cong)
  from len have lref: "int (length ref) \<le> 2147483647"
    by (simp add: al INT32_MAX_def)
  have lr: "int (length r) = int (length ref) - int off - int off2"
    using offr o2r by (simp add: r)
  from offr have lp: "length p = off"
    by (simp add: p_def)
  from lref offr o2r have "int_of_long (int_of_long (int_of_long (int (length ref)) - int off) - int off2)
      = int (length ref) - int off - int off2"
    by (simp add: int_of_long_id)
  with inv(8) lr have rlen: "al_rlen a = int (length r)"
    by (simp add: ref_def)
  from inv(7) have pos: "al_pos a = int_of_long (int_of_long (clamp_long (dec_value ds) - 1) + int (length p))"
    by (simp add: st lp)
  from inv(9) have alt': "al_alt a = Some t"
    by (simp add: t_def)
  from inv(6) have chr': "al_chr a = chr"
    by (simp add: chr_def)
  have nr: "CHR '':'' # alt = [] \<or> \<not> c_isalpha (hd (CHR '':'' # alt))"
    by (simp add: c_isalpha_def)
  have offe: "off = ltrim alt (ref @ CHR '':'' # alt)"
    by (simp add: off_def p4')
  from trim_result [OF refa nr offe off2' r t_def]
  have tr: "al_trimmed r t" and ra: "list_all c_isalpha r"
    by simp_all
  have short: "length r \<le> length r2 \<and> length t \<le> length t2"
    if "ref = p2 @ r2 @ q2 \<and> alt = p2' @ t2 @ q2'
        \<and> map c_toupper p2 = map c_toupper p2' \<and> map c_toupper q2 = map c_toupper q2'"
    for p2 r2 q2 p2' t2 q2'
  proof (rule trimmed_shortest [OF tr _ _ pp qq])
    from that refd show "p @ r @ q = p2 @ r2 @ q2" by simp
    from that altd show "p' @ t @ q' = p2' @ t2 @ q2'" by simp
    from that show "map c_toupper p2 = map c_toupper p2'" by simp
    from that show "map c_toupper q2 = map c_toupper q2'" by simp
  qed
  from short have short': "\<forall>p2 r2 q2 p2' t2 q2'.
      ref = p2 @ r2 @ q2 \<and> alt = p2' @ t2 @ q2'
      \<and> map c_toupper p2 = map c_toupper p2' \<and> map c_toupper q2 = map c_toupper q2'
      \<longrightarrow> length r \<le> length r2 \<and> length t \<le> length t2"
    by blast
  have body: "al = chr @ '':'' @ ds @ '':'' @ ref @ '':'' @ alt
      \<and> CHR '':'' \<notin> set chr \<and> ds \<noteq> [] \<and> list_all c_isdigit ds
      \<and> ref \<noteq> [] \<and> list_all c_isalpha ref
      \<and> ref = p @ r @ q \<and> alt = p' @ t @ q'
      \<and> map c_toupper p = map c_toupper p' \<and> map c_toupper q = map c_toupper q'
      \<and> al_chr a = chr
      \<and> al_pos a = int_of_long (int_of_long (clamp_long (dec_value ds) - 1) + int (length p))
      \<and> al_rlen a = int (length r) \<and> al_alt a = Some t
      \<and> al_trimmed r t
      \<and> (\<forall>p2 r2 q2 p2' t2 q2'.
            ref = p2 @ r2 @ q2 \<and> alt = p2' @ t2 @ q2'
            \<and> map c_toupper p2 = map c_toupper p2' \<and> map c_toupper q2 = map c_toupper q2'
            \<longrightarrow> length r \<le> length r2 \<and> length t \<le> length t2)"
    by (intro conjI al chr dsne dsd refne refa refd altd pp qq chr' pos rlen alt' tr short')
  have again: "bgt_al_parse (al_shorthand a r) = (0, a)" if "r \<noteq> []" and "- 1 \<le> al_pos a"
  proof -
    from pos int_of_long_range [of "int_of_long (clamp_long (dec_value ds) - 1) + int (length p)"]
    have up: "al_pos a \<le> 2147483647" by simp
    from lr lref have lr': "int (length r) \<le> 2147483647" by simp
    from al_reparse [OF chr that(2) up that(1) ra lr' tr]
    have "al_parse_core (chr @ '':'' @ dec_int (al_pos a + 1) @ '':'' @ r @ '':'' @ t)
      = (0, \<lparr>al_chr = chr, al_pos = al_pos a, al_rlen = int (length r), al_alt = Some t\<rparr>, Some r)" .
    with rlen alt' chr' show ?thesis
      by (simp add: bgt_al_parse_def al_shorthand_def)
  qed
  from body have "\<exists>chr ds ref alt p q p' q' t.
        al = chr @ '':'' @ ds @ '':'' @ ref @ '':'' @ alt
      \<and> CHR '':'' \<notin> set chr \<and> ds \<noteq> [] \<and> list_all c_isdigit ds
      \<and> ref \<noteq> [] \<and> list_all c_isalpha ref
      \<and> ref = p @ r @ q \<and> alt = p' @ t @ q'
      \<and> map c_toupper p = map c_toupper p' \<and> map c_toupper q = map c_toupper q'
      \<and> al_chr a = chr
      \<and> al_pos a = int_of_long (int_of_long (clamp_long (dec_value ds) - 1) + int (length p))
      \<and> al_rlen a = int (length r) \<and> al_alt a = Some t
      \<and> al_trimmed r t
      \<and> (\<forall>p2 r2 q2 p2' t2 q2'.
            ref = p2 @ r2 @ q2 \<and> alt = p2' @ t2 @ q2'
            \<and> map c_toupper p2 = map c_toupper p2' \<and> map c_toupper q2 = map c_toupper q2'
            \<longrightarrow> length r \<le> length r2 \<and> length t \<le> length t2)"
    by (intro exI)
  with again show ?thesis
    by (intro conjI impI) auto
qed

theorem bgt_al_parse_shorthand_witness:
  "al_parse_core ''chr1:100:CAT:CGT''
     = (0, \<lparr>al_chr = ''chr1'', al_pos = 100, al_rlen = 1, al_alt = Some ''G''\<rparr>, Some ''A'')
   \<and> int (length ''chr1:100:CAT:CGT'') \<le> INT32_MAX
   \<and> al_trimmed ''A'' ''G''
   \<and> al_shorthand \<lparr>al_chr = ''chr1'', al_pos = 100, al_rlen = 1, al_alt = Some ''G''\<rparr> ''A''
     = ''chr1:101:A:G''
   \<and> bgt_al_parse ''chr1:101:A:G''
     = (0, \<lparr>al_chr = ''chr1'', al_pos = 100, al_rlen = 1, al_alt = Some ''G''\<rparr>)"
proof -
  have p: "al_parse_core ''chr1:100:CAT:CGT''
     = (0, \<lparr>al_chr = ''chr1'', al_pos = 100, al_rlen = 1, al_alt = Some ''G''\<rparr>, Some ''A'')"
    by code_simp
  have l: "int (length ''chr1:100:CAT:CGT'') \<le> INT32_MAX"
    by (simp add: INT32_MAX_def)
  have t: "al_trimmed ''A'' ''G''"
    by code_simp
  have s: "al_shorthand \<lparr>al_chr = ''chr1'', al_pos = 100, al_rlen = 1, al_alt = Some ''G''\<rparr> ''A''
     = ''chr1:101:A:G''"
    by code_simp
  from bgt_al_parse_shorthand [OF p l]
  have "bgt_al_parse (al_shorthand \<lparr>al_chr = ''chr1'', al_pos = 100, al_rlen = 1, al_alt = Some ''G''\<rparr> ''A'')
     = (0, \<lparr>al_chr = ''chr1'', al_pos = 100, al_rlen = 1, al_alt = Some ''G''\<rparr>)"
    by simp
  then have r: "bgt_al_parse ''chr1:101:A:G''
     = (0, \<lparr>al_chr = ''chr1'', al_pos = 100, al_rlen = 1, al_alt = Some ''G''\<rparr>)"
    unfolding s .
  show ?thesis
    by (intro conjI p l t s r)
qed

text \<open>
  C9 as stated fails where trimming uses up the REF: \<open>1:5:A:AC\<close> is accepted as the
  insertion of \<open>C\<close> at position 5 with \<open>rlen = 0\<close>, and its shorthand \<open>1:6::C\<close>, with an empty
  REF field, is rejected.
\<close>

theorem bgt_al_parse_empty_ref_counterexample:
  "al_parse_core ''1:5:A:AC''
     = (0, \<lparr>al_chr = ''1'', al_pos = 5, al_rlen = 0, al_alt = Some ''C''\<rparr>, Some [])
   \<and> al_shorthand \<lparr>al_chr = ''1'', al_pos = 5, al_rlen = 0, al_alt = Some ''C''\<rparr> [] = ''1:6::C''
   \<and> bgt_al_parse ''1:6::C''
     = (- 1, \<lparr>al_chr = ''1'', al_pos = 5, al_rlen = - 1, al_alt = None\<rparr>)"
  by code_simp

text \<open>
  The bound on the position matters as well: a position field past \<open>INT32_MAX\<close> wraps in
  the conversion to \<open>int\<close>, here to \<open>- 2\<close>, and the shorthand of the result has a sign
  where the parser wants a digit.  So does the sum of the position and the number of
  characters trimmed on the left.
\<close>

lemma bgt_al_parse_wrapped_position:
  "al_parse_core ''c:4294967295:A:C''
     = (0, \<lparr>al_chr = ''c'', al_pos = - 2, al_rlen = 1, al_alt = Some ''C''\<rparr>, Some ''A'')
   \<and> al_shorthand \<lparr>al_chr = ''c'', al_pos = - 2, al_rlen = 1, al_alt = Some ''C''\<rparr> ''A'' = ''c:-1:A:C''
   \<and> fst (bgt_al_parse ''c:-1:A:C'') = - 1"
  by code_simp

lemma bgt_al_parse_wrapped_sum:
  "al_parse_core ''c:2147483648:AT:AG''
     = (0, \<lparr>al_chr = ''c'', al_pos = - 2147483648, al_rlen = 1, al_alt = Some ''G''\<rparr>, Some ''T'')"
  by code_simp

end
